theory Spec2Isabelle
  imports Complex_Main "HOL-Library.Sublist"
begin

section \<open>JavaScript string primitives used by the shader generator\<close>

text \<open>
  A JavaScript string is modelled as a \<open>string\<close>, a list of code units; the model covers the
  code units below 256. The functions below follow the ECMAScript definitions of
  \<open>indexOf\<close>, \<open>includes\<close> (here \<open>str_includes\<close>), \<open>substring\<close>, \<open>replace\<close> with a string pattern, \<open>trim\<close>,
  \<open>split\<close>, \<open>join\<close>, \<open>findIndex\<close> and \<open>splice\<close>.
\<close>

text \<open>White space as \<open>trim\<close> and the regular expression class \<open>\s\<close> see it:
  tab, line feed, vertical tab, form feed, carriage return, space, no-break space.\<close>

definition is_space :: "char \<Rightarrow> bool" where
  "is_space c = (c = CHR 0x09 \<or> c = CHR 0x0A \<or> c = CHR 0x0B \<or> c = CHR 0x0C
                 \<or> c = CHR 0x0D \<or> c = CHR 0x20 \<or> c = CHR 0xA0)"

text \<open>The regular expression class \<open>\w\<close>: ASCII letters, digits and the underscore.\<close>

definition is_word :: "char \<Rightarrow> bool" where
  "is_word c = (let n = of_char c :: nat in
     (65 \<le> n \<and> n \<le> 90) \<or> (97 \<le> n \<and> n \<le> 122) \<or> (48 \<le> n \<and> n \<le> 57) \<or> n = 95)"

text \<open>\<open>s.indexOf(p)\<close>: the position of the first occurrence of \<open>p\<close>; \<open>None\<close> stands for -1.\<close>

fun indexOf :: "string \<Rightarrow> string \<Rightarrow> nat option" where
  "indexOf [] p = (if p = [] then Some 0 else None)"
| "indexOf (c # cs) p =
     (if prefix p (c # cs) then Some 0 else map_option Suc (indexOf cs p))"

definition str_includes :: "string \<Rightarrow> string \<Rightarrow> bool" where
  "str_includes s p = (indexOf s p \<noteq> None)"

text \<open>\<open>s.substring(a, b)\<close> swaps its arguments when \<open>a > b\<close> and clamps them to the length;
  \<open>s.substring(a)\<close> runs to the end of the string.\<close>

definition substring :: "string \<Rightarrow> nat \<Rightarrow> nat \<Rightarrow> string" where
  "substring s a b = (let lo = min a b; hi = max a b in take (hi - lo) (drop lo s))"

definition substring_from :: "string \<Rightarrow> nat \<Rightarrow> string" where
  "substring_from s a = drop a s"

text \<open>\<open>s.replace(p, r)\<close> with a string pattern replaces the first occurrence only.\<close>

definition replace_str :: "string \<Rightarrow> string \<Rightarrow> string \<Rightarrow> string" where
  "replace_str s p r =
     (case indexOf s p of None \<Rightarrow> s | Some i \<Rightarrow> take i s @ r @ drop (i + length p) s)"

definition trim :: "string \<Rightarrow> string" where
  "trim s = rev (dropWhile is_space (rev (dropWhile is_space s)))"

definition newline :: char where
  "newline = CHR 0x0A"

text \<open>\<open>s.split("\\n")\<close> and \<open>lines.join("\\n")\<close>; splitting the empty string gives one
  empty line.\<close>

fun split_nl :: "string \<Rightarrow> string list" where
  "split_nl [] = [[]]"
| "split_nl (c # cs) =
     (if c = newline then [] # split_nl cs
      else (let ls = split_nl cs in (c # hd ls) # tl ls))"

fun join_nl :: "string list \<Rightarrow> string" where
  "join_nl [] = []"
| "join_nl [l] = l"
| "join_nl (l # ls) = l @ [newline] @ join_nl ls"

text \<open>\<open>xs.findIndex(P)\<close>, with \<open>None\<close> for -1, and \<open>xs.splice(i, 0, x)\<close>, which inserts
  \<open>x\<close> before position \<open>i\<close> (at the end when \<open>i\<close> is beyond it).\<close>

fun findIndex :: "('a \<Rightarrow> bool) \<Rightarrow> 'a list \<Rightarrow> nat option" where
  "findIndex P [] = None"
| "findIndex P (x # xs) = (if P x then Some 0 else map_option Suc (findIndex P xs))"

definition splice_insert :: "'a list \<Rightarrow> nat \<Rightarrow> 'a \<Rightarrow> 'a list" where
  "splice_insert xs i x = take i xs @ [x] @ drop i xs"

section \<open>Errors thrown by the pipeline\<close>

datatype error =
    MissingVertexOrFragmentMarker
  | MissingFragmentMarker
  | ShaderCompilationError string
  | ProgramLinkingError string
  | FailedToCompileShaders
  | FailedToCreateProgram

text \<open>The two errors of the extraction functions are the parse failure the specification
  calls \<open>MissingMarker\<close>.\<close>

fun is_missing_marker :: "error \<Rightarrow> bool" where
  "is_missing_marker MissingVertexOrFragmentMarker = True"
| "is_missing_marker MissingFragmentMarker = True"
| "is_missing_marker _ = False"

section \<open>Splitting the bundle\<close>

definition vertex_marker :: string where
  "vertex_marker = ''// Vertex Shader''"

definition fragment_marker :: string where
  "fragment_marker = ''// Fragment Shader''"

definition extractVertexShader :: "string \<Rightarrow> error + string" where
  "extractVertexShader code =
     (case (indexOf code vertex_marker, indexOf code fragment_marker) of
        (Some vertexStart, Some fragmentStart) \<Rightarrow>
          Inr (trim (replace_str (substring code vertexStart fragmentStart) vertex_marker []))
      | _ \<Rightarrow> Inl MissingVertexOrFragmentMarker)"

definition extractFragmentShader :: "string \<Rightarrow> error + string" where
  "extractFragmentShader code =
     (case indexOf code fragment_marker of
        None \<Rightarrow> Inl MissingFragmentMarker
      | Some fragmentStart \<Rightarrow>
          Inr (trim (replace_str (substring_from code fragmentStart) fragment_marker [])))"

text \<open>The regular expression \<open>// GEOMETRY:\s*(\w+)\<close>: the captured name of a match that
  starts at the head of the text. Each quantifier is followed by a character outside its
  class, so the greedy reading is the only one.\<close>

definition geometry_match_at :: "string \<Rightarrow> string option" where
  "geometry_match_at s =
     (if prefix ''// GEOMETRY:'' s
      then (let name = takeWhile is_word (dropWhile is_space (drop 12 s))
            in if name = [] then None else Some name)
      else None)"

fun geometry_match :: "string \<Rightarrow> string option" where
  "geometry_match [] = None"
| "geometry_match (c # cs) =
     (case geometry_match_at (c # cs) of Some name \<Rightarrow> Some name | None \<Rightarrow> geometry_match cs)"

definition extractGeometryType :: "string \<Rightarrow> string" where
  "extractGeometryType code =
     (case geometry_match code of Some name \<Rightarrow> name | None \<Rightarrow> ''cube'')"

record shader_bundle =
  vertexSrc :: string
  fragmentSrc :: string
  geometryName :: string

text \<open>The parsing steps of \<open>renderShader\<close>, in the order the source takes them: the first
  exception ends the parse.\<close>

definition split_bundle :: "string \<Rightarrow> error + shader_bundle" where
  "split_bundle code =
     (case extractVertexShader code of
        Inl e \<Rightarrow> Inl e
      | Inr v \<Rightarrow>
         (case extractFragmentShader code of
            Inl e \<Rightarrow> Inl e
          | Inr f \<Rightarrow>
              Inr \<lparr>vertexSrc = v, fragmentSrc = f, geometryName = extractGeometryType code\<rparr>))"

section \<open>Repairing the fragment source\<close>

text \<open>The regular expression \<open>precision\s+\w+\s+float\s*;\<close>: the length of a match that
  starts at the head of the text. White space and word characters are disjoint classes and
  every quantifier is followed by a character outside its class, so the greedy reading is
  the only way to match and no backtracking can find another.\<close>

definition precision_match_at :: "string \<Rightarrow> nat option" where
  "precision_match_at s =
     (if \<not> prefix ''precision'' s then None
      else let s1 = drop 9 s; s2 = dropWhile is_space s1 in
        if takeWhile is_space s1 = [] then None
        else let s3 = dropWhile is_word s2 in
          if takeWhile is_word s2 = [] then None
          else let s4 = dropWhile is_space s3 in
            if takeWhile is_space s3 = [] then None
            else if \<not> prefix ''float'' s4 then None
            else (case dropWhile is_space (drop 5 s4) of
                    [] \<Rightarrow> None
                  | c # rest \<Rightarrow>
                      if c = CHR '';'' then Some (length s - length rest) else None))"

text \<open>\<open>s.match(re)\<close> without the global flag: the leftmost match, as its position and
  length.\<close>

fun precision_match :: "string \<Rightarrow> (nat \<times> nat) option" where
  "precision_match [] = None"
| "precision_match (c # cs) =
     (case precision_match_at (c # cs) of
        Some n \<Rightarrow> Some (0, n)
      | None \<Rightarrow> map_option (\<lambda>(i, n). (Suc i, n)) (precision_match cs))"

text \<open>The first phase of \<open>fixShaderIssues\<close>: the trimmed text with a precision statement
  put at its head.\<close>

definition ensure_precision :: "string \<Rightarrow> string" where
  "ensure_precision fragmentShaderCode =
     (let fixedCode = trim fragmentShaderCode in
      if \<not> str_includes fixedCode ''precision''
      then ''precision mediump float;'' @ [newline] @ fixedCode
      else (case precision_match fixedCode of
              None \<Rightarrow> fixedCode
            | Some (i, n) \<Rightarrow>
                (let precisionStatement = take n (drop i fixedCode)
                 in precisionStatement @ [newline]
                      @ trim (replace_str fixedCode precisionStatement []))))"

text \<open>The second phase: the declarations that the text uses and lacks are collected in
  one text and inserted as one line after the first line that contains \<open>precision\<close>.\<close>

definition insert_declarations :: "string \<Rightarrow> string" where
  "insert_declarations fixedCode =
     (let needsTimeUniform =
            (str_includes fixedCode ''time'' \<and> \<not> str_includes fixedCode ''uniform float time'');
          needsResolutionUniform =
            (str_includes fixedCode ''resolution''
               \<and> \<not> str_includes fixedCode ''uniform vec2 resolution'');
          needsVNormalVarying =
            (str_includes fixedCode ''vNormal'' \<and> \<not> str_includes fixedCode ''varying vec3 vNormal'');
          needsVPositionVarying =
            (str_includes fixedCode ''vPosition''
               \<and> \<not> str_includes fixedCode ''varying vec3 vPosition'');
          uniformDeclarations =
            (if needsTimeUniform then ''uniform float time;'' @ [newline] else [])
            @ (if needsResolutionUniform then ''uniform vec2 resolution;'' @ [newline] else [])
            @ (if needsVNormalVarying then ''varying vec3 vNormal;'' @ [newline] else [])
            @ (if needsVPositionVarying then ''varying vec3 vPosition;'' @ [newline] else [])
      in if uniformDeclarations \<noteq> []
         then (let lines = split_nl fixedCode in
               case findIndex (\<lambda>line. str_includes line ''precision'') lines of
                 Some precisionLineIndex \<Rightarrow>
                   join_nl (splice_insert lines (precisionLineIndex + 1) (trim uniformDeclarations))
               | None \<Rightarrow> uniformDeclarations @ fixedCode)
         else fixedCode)"

definition fixShaderIssues :: "string \<Rightarrow> string" where
  "fixShaderIssues fragmentShaderCode = insert_declarations (ensure_precision fragmentShaderCode)"

text \<open>A text occurs in another when the latter splits around it.\<close>

definition occurs :: "string \<Rightarrow> string \<Rightarrow> bool" where
  "occurs p s = (\<exists>a b. s = a @ p @ b)"

text \<open>The recognized identifiers with the declaration text that \<open>fixShaderIssues\<close> looks
  for, in the order of insertion; the declarations a text needs; and the block of
  declaration lines made of them.\<close>

definition declaration_table :: "(string \<times> string) list" where
  "declaration_table =
     [(''time'', ''uniform float time''),
      (''resolution'', ''uniform vec2 resolution''),
      (''vNormal'', ''varying vec3 vNormal''),
      (''vPosition'', ''varying vec3 vPosition'')]"

definition needed_declarations :: "string \<Rightarrow> string list" where
  "needed_declarations f =
     map (\<lambda>(ident, decl). decl @ '';'')
       (filter (\<lambda>(ident, decl). str_includes f ident \<and> \<not> str_includes f decl)
          declaration_table)"

definition declaration_block :: "string \<Rightarrow> string" where
  "declaration_block f = concat (map (\<lambda>d. d @ [newline]) (needed_declarations f))"

text \<open>The shape of a text that the precision pattern matches: the keyword, white space, a
  word, white space, \<open>float\<close>, optional white space, a semicolon.\<close>

definition precision_shape :: "string \<Rightarrow> string \<Rightarrow> string \<Rightarrow> string \<Rightarrow> string" where
  "precision_shape ws1 w ws2 ws3 =
     ''precision'' @ ws1 @ w @ ws2 @ ''float'' @ ws3 @ [CHR '';'']"

definition precision_parts :: "string \<Rightarrow> string \<Rightarrow> string \<Rightarrow> string \<Rightarrow> bool" where
  "precision_parts ws1 w ws2 ws3 \<longleftrightarrow>
     ws1 \<noteq> [] \<and> (\<forall>x\<in>set ws1. is_space x) \<and> w \<noteq> [] \<and> (\<forall>x\<in>set w. is_word x)
     \<and> ws2 \<noteq> [] \<and> (\<forall>x\<in>set ws2. is_space x) \<and> (\<forall>x\<in>set ws3. is_space x)"

section \<open>Geometry generation\<close>

text \<open>
  Numbers are modelled as reals: \<open>Math.cos\<close>, \<open>Math.sin\<close> and \<open>Math.PI\<close> are the real
  functions and constant, without rounding. Reading an array beyond its end gives
  \<open>undefined\<close> in JavaScript, here \<open>None\<close>; the arrays that the generators return are
  therefore lists of optional numbers. Loop counters are natural numbers, and a
  \<open>for\<close> loop that pushes onto an array is a \<open>fold\<close> over the range of its counter.
\<close>

definition nth_opt :: "'a list \<Rightarrow> nat \<Rightarrow> 'a option" where
  "nth_opt xs i = (if i < length xs then Some (xs ! i) else None)"

text \<open>\<open>toLowerCase\<close> on the code units below 256: the ASCII capitals and the Latin-1
  capitals (all of \<open>0xC0\<close> to \<open>0xDE\<close> but the multiplication sign) move up by 32.\<close>

definition lower_char :: "char \<Rightarrow> char" where
  "lower_char c = (let n = of_char c :: nat in
     if (65 \<le> n \<and> n \<le> 90) \<or> (192 \<le> n \<and> n \<le> 222 \<and> n \<noteq> 215)
     then char_of (n + 32) else c)"

definition toLowerCase :: "string \<Rightarrow> string" where
  "toLowerCase s = map lower_char s"

definition generateSphere :: "real \<Rightarrow> nat \<Rightarrow> nat \<Rightarrow> real option list" where
  "generateSphere radius widthSegments heightSegments =
     (let vertices =
            fold (\<lambda>i vs.
              fold (\<lambda>j vs.
                let v = real i / real heightSegments;
                    phi = v * pi;
                    u = real j / real widthSegments;
                    theta = u * pi * 2;
                    x = - radius * cos theta * sin phi;
                    y = radius * cos phi;
                    z = radius * sin theta * sin phi
                in vs @ [x, y, z])
              [0..<Suc widthSegments] vs)
            [0..<Suc heightSegments] [];
          triangles =
            fold (\<lambda>i ts.
              fold (\<lambda>j ts.
                let a = i * (widthSegments + 1) + j;
                    b = a + widthSegments + 1;
                    c = a + 1;
                    d = b + 1
                in ts
                   @ (if i \<noteq> 0
                      then [nth_opt vertices (a * 3), nth_opt vertices (a * 3 + 1),
                            nth_opt vertices (a * 3 + 2),
                            nth_opt vertices (b * 3), nth_opt vertices (b * 3 + 1),
                            nth_opt vertices (b * 3 + 2),
                            nth_opt vertices (c * 3), nth_opt vertices (c * 3 + 1),
                            nth_opt vertices (c * 3 + 2)]
                      else [])
                   @ (if int i \<noteq> int heightSegments - 1
                      then [nth_opt vertices (b * 3), nth_opt vertices (b * 3 + 1),
                            nth_opt vertices (b * 3 + 2),
                            nth_opt vertices (d * 3), nth_opt vertices (d * 3 + 1),
                            nth_opt vertices (d * 3 + 2),
                            nth_opt vertices (c * 3), nth_opt vertices (c * 3 + 1),
                            nth_opt vertices (c * 3 + 2)]
                      else []))
              [0..<widthSegments] ts)
            [0..<heightSegments] []
      in triangles)"

definition generateSphereNormals :: "real \<Rightarrow> nat \<Rightarrow> nat \<Rightarrow> real option list" where
  "generateSphereNormals radius widthSegments heightSegments =
     (let normals =
            fold (\<lambda>i ns.
              fold (\<lambda>j ns.
                let v = real i / real heightSegments;
                    phi = v * pi;
                    u = real j / real widthSegments;
                    theta = u * pi * 2;
                    x = - cos theta * sin phi;
                    y = cos phi;
                    z = sin theta * sin phi
                in ns @ [x, y, z])
              [0..<Suc widthSegments] ns)
            [0..<Suc heightSegments] [];
          triangleNormals =
            fold (\<lambda>i ts.
              fold (\<lambda>j ts.
                let a = i * (widthSegments + 1) + j;
                    b = a + widthSegments + 1;
                    c = a + 1;
                    d = b + 1
                in ts
                   @ (if i \<noteq> 0
                      then [nth_opt normals (a * 3), nth_opt normals (a * 3 + 1),
                            nth_opt normals (a * 3 + 2),
                            nth_opt normals (b * 3), nth_opt normals (b * 3 + 1),
                            nth_opt normals (b * 3 + 2),
                            nth_opt normals (c * 3), nth_opt normals (c * 3 + 1),
                            nth_opt normals (c * 3 + 2)]
                      else [])
                   @ (if int i \<noteq> int heightSegments - 1
                      then [nth_opt normals (b * 3), nth_opt normals (b * 3 + 1),
                            nth_opt normals (b * 3 + 2),
                            nth_opt normals (d * 3), nth_opt normals (d * 3 + 1),
                            nth_opt normals (d * 3 + 2),
                            nth_opt normals (c * 3), nth_opt normals (c * 3 + 1),
                            nth_opt normals (c * 3 + 2)]
                      else []))
              [0..<widthSegments] ts)
            [0..<heightSegments] []
      in triangleNormals)"

definition generateCylinder :: "real \<Rightarrow> real \<Rightarrow> nat \<Rightarrow> real option list" where
  "generateCylinder radius height segments =
     (let halfHeight = height / 2;
          vertices =
            fold (\<lambda>i vs.
              let theta = (real i / real segments) * pi * 2;
                  x = radius * cos theta;
                  z = radius * sin theta
              in (vs @ [x, - halfHeight, z]) @ [x, halfHeight, z])
            [0..<Suc segments] [];
          triangles =
            fold (\<lambda>i ts.
              let a = i * 2;
                  b = a + 1;
                  c = ((i + 1) mod segments) * 2;
                  d = c + 1
              in ts
                 @ [nth_opt vertices (a * 3), nth_opt vertices (a * 3 + 1),
                    nth_opt vertices (a * 3 + 2),
                    nth_opt vertices (c * 3), nth_opt vertices (c * 3 + 1),
                    nth_opt vertices (c * 3 + 2),
                    nth_opt vertices (b * 3), nth_opt vertices (b * 3 + 1),
                    nth_opt vertices (b * 3 + 2)]
                 @ [nth_opt vertices (b * 3), nth_opt vertices (b * 3 + 1),
                    nth_opt vertices (b * 3 + 2),
                    nth_opt vertices (c * 3), nth_opt vertices (c * 3 + 1),
                    nth_opt vertices (c * 3 + 2),
                    nth_opt vertices (d * 3), nth_opt vertices (d * 3 + 1),
                    nth_opt vertices (d * 3 + 2)])
            [0..<segments] []
      in triangles)"

definition generateCylinderNormals :: "real \<Rightarrow> real \<Rightarrow> nat \<Rightarrow> real option list" where
  "generateCylinderNormals radius height segments =
     (let normals =
            fold (\<lambda>i ns.
              let theta = (real i / real segments) * pi * 2;
                  x = cos theta;
                  z = sin theta
              in (ns @ [x, 0, z]) @ [x, 0, z])
            [0..<Suc segments] [];
          triangleNormals =
            fold (\<lambda>i ts.
              let a = i * 2;
                  b = a + 1;
                  c = ((i + 1) mod segments) * 2;
                  d = c + 1
              in ts
                 @ [nth_opt normals (a * 3), nth_opt normals (a * 3 + 1),
                    nth_opt normals (a * 3 + 2),
                    nth_opt normals (c * 3), nth_opt normals (c * 3 + 1),
                    nth_opt normals (c * 3 + 2),
                    nth_opt normals (b * 3), nth_opt normals (b * 3 + 1),
                    nth_opt normals (b * 3 + 2)]
                 @ [nth_opt normals (b * 3), nth_opt normals (b * 3 + 1),
                    nth_opt normals (b * 3 + 2),
                    nth_opt normals (c * 3), nth_opt normals (c * 3 + 1),
                    nth_opt normals (c * 3 + 2),
                    nth_opt normals (d * 3), nth_opt normals (d * 3 + 1),
                    nth_opt normals (d * 3 + 2)])
            [0..<segments] []
      in triangleNormals)"

definition generateTorus :: "real \<Rightarrow> real \<Rightarrow> nat \<Rightarrow> nat \<Rightarrow> real option list" where
  "generateTorus majorRadius minorRadius majorSegments minorSegments =
     (let vertices =
            fold (\<lambda>i vs.
              let u = (real i / real majorSegments) * pi * 2 in
              fold (\<lambda>j vs.
                let v = (real j / real minorSegments) * pi * 2;
                    x = (majorRadius + minorRadius * cos v) * cos u;
                    y = minorRadius * sin v;
                    z = (majorRadius + minorRadius * cos v) * sin u
                in vs @ [x, y, z])
              [0..<Suc minorSegments] vs)
            [0..<Suc majorSegments] [];
          triangles =
            fold (\<lambda>i ts.
              fold (\<lambda>j ts.
                let a = i * (minorSegments + 1) + j;
                    b = a + minorSegments + 1;
                    c = a + 1;
                    d = b + 1
                in ts
                   @ [nth_opt vertices (a * 3), nth_opt vertices (a * 3 + 1),
                      nth_opt vertices (a * 3 + 2),
                      nth_opt vertices (b * 3), nth_opt vertices (b * 3 + 1),
                      nth_opt vertices (b * 3 + 2),
                      nth_opt vertices (c * 3), nth_opt vertices (c * 3 + 1),
                      nth_opt vertices (c * 3 + 2)]
                   @ [nth_opt vertices (b * 3), nth_opt vertices (b * 3 + 1),
                      nth_opt vertices (b * 3 + 2),
                      nth_opt vertices (d * 3), nth_opt vertices (d * 3 + 1),
                      nth_opt vertices (d * 3 + 2),
                      nth_opt vertices (c * 3), nth_opt vertices (c * 3 + 1),
                      nth_opt vertices (c * 3 + 2)])
              [0..<minorSegments] ts)
            [0..<majorSegments] []
      in triangles)"

definition generateTorusNormals :: "real \<Rightarrow> real \<Rightarrow> nat \<Rightarrow> nat \<Rightarrow> real option list" where
  "generateTorusNormals majorRadius minorRadius majorSegments minorSegments =
     (let normals =
            fold (\<lambda>i ns.
              let u = (real i / real majorSegments) * pi * 2 in
              fold (\<lambda>j ns.
                let v = (real j / real minorSegments) * pi * 2;
                    centerX = majorRadius * cos u;
                    centerZ = majorRadius * sin u;
                    x = (majorRadius + minorRadius * cos v) * cos u;
                    y = minorRadius * sin v;
                    z = (majorRadius + minorRadius * cos v) * sin u;
                    nx = (x - centerX) / minorRadius;
                    ny = y / minorRadius;
                    nz = (z - centerZ) / minorRadius
                in ns @ [nx, ny, nz])
              [0..<Suc minorSegments] ns)
            [0..<Suc majorSegments] [];
          triangleNormals =
            fold (\<lambda>i ts.
              fold (\<lambda>j ts.
                let a = i * (minorSegments + 1) + j;
                    b = a + minorSegments + 1;
                    c = a + 1;
                    d = b + 1
                in ts
                   @ [nth_opt normals (a * 3), nth_opt normals (a * 3 + 1),
                      nth_opt normals (a * 3 + 2),
                      nth_opt normals (b * 3), nth_opt normals (b * 3 + 1),
                      nth_opt normals (b * 3 + 2),
                      nth_opt normals (c * 3), nth_opt normals (c * 3 + 1),
                      nth_opt normals (c * 3 + 2)]
                   @ [nth_opt normals (b * 3), nth_opt normals (b * 3 + 1),
                      nth_opt normals (b * 3 + 2),
                      nth_opt normals (d * 3), nth_opt normals (d * 3 + 1),
                      nth_opt normals (d * 3 + 2),
                      nth_opt normals (c * 3), nth_opt normals (c * 3 + 1),
                      nth_opt normals (c * 3 + 2)])
              [0..<minorSegments] ts)
            [0..<majorSegments] []
      in triangleNormals)"

text \<open>The literal arrays of the \<open>switch\<close> statements, in the order of the source text.\<close>

definition cube_vertices :: "real list" where
  "cube_vertices =
     [-1, -1, 1, 1, -1, 1, 1, 1, 1, -1, -1, 1, 1, 1, 1, -1, 1, 1, -1, -1, -1, -1, 1,
      -1, 1, 1, -1, -1, -1, -1, 1, 1, -1, 1, -1, -1, -1, 1, -1, -1, 1, 1, 1, 1, 1, -1,
      1, -1, 1, 1, 1, 1, 1, -1, -1, -1, -1, 1, -1, -1, 1, -1, 1, -1, -1, -1, 1, -1, 1,
      -1, -1, 1, 1, -1, -1, 1, 1, -1, 1, 1, 1, 1, -1, -1, 1, 1, 1, 1, -1, 1, -1, -1,
      -1, -1, -1, 1, -1, 1, 1, -1, -1, -1, -1, 1, 1, -1, 1, -1]"

definition plane_vertices :: "real list" where
  "plane_vertices =
     [-2, 0, -2, 2, 0, -2, 2, 0, 2, -2, 0, -2, 2, 0, 2, -2, 0, 2]"

definition default_vertices :: "real list" where
  "default_vertices =
     [-1, -1, 1, 1, -1, 1, 1, 1, 1, -1, -1, 1, 1, 1, 1, -1, 1, 1, -1, -1, -1, -1, 1,
      -1, 1, 1, -1, -1, -1, -1, 1, 1, -1, 1, -1, -1, -1, 1, -1, -1, 1, 1, 1, 1, 1, -1,
      1, -1, 1, 1, 1, 1, 1, -1, -1, -1, -1, 1, -1, -1, 1, -1, 1, -1, -1, -1, 1, -1, 1,
      -1, -1, 1, 1, -1, -1, 1, 1, -1, 1, 1, 1, 1, -1, -1, 1, 1, 1, 1, -1, 1, -1, -1,
      -1, -1, -1, 1, -1, 1, 1, -1, -1, -1, -1, 1, 1, -1, 1, -1]"

definition cube_normals :: "real list" where
  "cube_normals =
     [0, 0, 1, 0, 0, 1, 0, 0, 1, 0, 0, 1, 0, 0, 1, 0, 0, 1, 0, 0, -1, 0, 0, -1, 0, 0,
      -1, 0, 0, -1, 0, 0, -1, 0, 0, -1, 0, 1, 0, 0, 1, 0, 0, 1, 0, 0, 1, 0, 0, 1, 0, 0,
      1, 0, 0, -1, 0, 0, -1, 0, 0, -1, 0, 0, -1, 0, 0, -1, 0, 0, -1, 0, 1, 0, 0, 1, 0,
      0, 1, 0, 0, 1, 0, 0, 1, 0, 0, 1, 0, 0, -1, 0, 0, -1, 0, 0, -1, 0, 0, -1, 0, 0,
      -1, 0, 0, -1, 0, 0]"

definition plane_normals :: "real list" where
  "plane_normals =
     [0, 1, 0, 0, 1, 0, 0, 1, 0, 0, 1, 0, 0, 1, 0, 0, 1, 0]"

definition default_normals :: "real list" where
  "default_normals =
     [0, 0, 1, 0, 0, 1, 0, 0, 1, 0, 0, 1, 0, 0, 1, 0, 0, 1, 0, 0, -1, 0, 0, -1, 0, 0,
      -1, 0, 0, -1, 0, 0, -1, 0, 0, -1, 0, 1, 0, 0, 1, 0, 0, 1, 0, 0, 1, 0, 0, 1, 0, 0,
      1, 0, 0, -1, 0, 0, -1, 0, 0, -1, 0, 0, -1, 0, 0, -1, 0, 0, -1, 0, 1, 0, 0, 1, 0,
      0, 1, 0, 0, 1, 0, 0, 1, 0, 0, 1, 0, 0, -1, 0, 0, -1, 0, 0, -1, 0, 0, -1, 0, 0,
      -1, 0, 0, -1, 0, 0]"

definition getGeometryVertices :: "string \<Rightarrow> real option list" where
  "getGeometryVertices type =
     (let t = toLowerCase type in
      if t = ''cube'' then map Some cube_vertices
      else if t = ''sphere'' then generateSphere 1 20 20
      else if t = ''plane'' then map Some plane_vertices
      else if t = ''cylinder'' then generateCylinder 1 2 16
      else if t = ''torus'' then generateTorus 0.6 0.3 16 16
      else map Some default_vertices)"

definition getGeometryNormals :: "string \<Rightarrow> real option list" where
  "getGeometryNormals type =
     (let t = toLowerCase type in
      if t = ''cube'' then map Some cube_normals
      else if t = ''sphere'' then generateSphereNormals 1 20 20
      else if t = ''plane'' then map Some plane_normals
      else if t = ''cylinder'' then generateCylinderNormals 1 2 16
      else if t = ''torus'' then generateTorusNormals 0.6 0.3 16 16
      else map Some default_normals)"

text \<open>The vectors of a flat array, three numbers at a time, and what it means for one of
  them to be a unit vector read from inside the array.\<close>

fun triples :: "'a list \<Rightarrow> ('a \<times> 'a \<times> 'a) list" where
  "triples (x # y # z # rest) = (x, y, z) # triples rest"
| "triples _ = []"

fun unit_normal :: "real option \<times> real option \<times> real option \<Rightarrow> bool" where
  "unit_normal (Some x, Some y, Some z) = (x * x + y * y + z * z = 1)"
| "unit_normal _ = False"

section \<open>The render pipeline\<close>

text \<open>
  The graphics context is modelled by the handles it has handed out and not yet deleted.
  Every \<open>create\<close> call returns a fresh handle from one counter; \<open>deleteShader\<close> and
  \<open>deleteProgram\<close> take the handle out of the live list. The frame callbacks registered
  with \<open>requestAnimationFrame\<close> and not yet run or cancelled are kept by their request ids.
\<close>

record gl_context =
  next_handle :: nat
  live_shaders :: "nat list"
  live_programs :: "nat list"
  live_buffers :: "nat list"
  draw_calls :: "(nat \<times> nat) list"

text \<open>The refs of the component, with the context they draw on and the callbacks the host
  holds for it.\<close>

record view_state =
  gl :: gl_context
  glRef :: bool
  programRef :: "nat option"
  animationRef :: nat
  startTimeRef :: nat
  vertexCountRef :: nat
  next_request :: nat
  pending_frames :: "nat list"

datatype shader_type = VERTEX_SHADER | FRAGMENT_SHADER

text \<open>What the host decides: whether the canvas is mounted, whether it gives a WebGL
  context, whether the context hands out objects, which sources compile, which pairs of
  shaders link, the diagnostic text, and the clock.\<close>

record host =
  has_canvas :: bool
  has_webgl :: bool
  shader_alloc_ok :: bool
  program_alloc_ok :: bool
  compiles :: "shader_type \<Rightarrow> string \<Rightarrow> bool"
  links :: "nat \<Rightarrow> nat \<Rightarrow> bool"
  info_log :: string
  now :: nat

definition initial_view :: view_state where
  "initial_view =
     \<lparr>gl = \<lparr>next_handle = 1, live_shaders = [], live_programs = [], live_buffers = [],
              draw_calls = []\<rparr>,
      glRef = False, programRef = None, animationRef = 0, startTimeRef = 0,
      vertexCountRef = 36, next_request = 1, pending_frames = []\<rparr>"

definition create_handle :: "gl_context \<Rightarrow> nat \<times> gl_context" where
  "create_handle g = (next_handle g, g\<lparr>next_handle := Suc (next_handle g)\<rparr>)"

text \<open>\<open>createShader\<close>: \<open>Inr None\<close> is the \<open>null\<close> it returns when the context gives no
  shader object; a failed compilation deletes the new shader and throws.\<close>

definition createShader ::
  "host \<Rightarrow> shader_type \<Rightarrow> string \<Rightarrow> gl_context \<Rightarrow> (error + nat option) \<times> gl_context" where
  "createShader h type source g =
     (if \<not> shader_alloc_ok h then (Inr None, g)
      else (let (shader, g1) = create_handle g;
                g2 = g1\<lparr>live_shaders := shader # live_shaders g1\<rparr>
            in if \<not> compiles h type source
               then (Inl (ShaderCompilationError (info_log h)),
                     g2\<lparr>live_shaders := removeAll shader (live_shaders g2)\<rparr>)
               else (Inr (Some shader), g2)))"

text \<open>\<open>createProgram\<close>: a failed link deletes the new program and throws.\<close>

definition createProgram ::
  "host \<Rightarrow> nat \<Rightarrow> nat \<Rightarrow> gl_context \<Rightarrow> (error + nat option) \<times> gl_context" where
  "createProgram h vertexShader fragmentShader g =
     (if \<not> program_alloc_ok h then (Inr None, g)
      else (let (program, g1) = create_handle g;
                g2 = g1\<lparr>live_programs := program # live_programs g1\<rparr>
            in if \<not> links h vertexShader fragmentShader
               then (Inl (ProgramLinkingError (info_log h)),
                     g2\<lparr>live_programs := removeAll program (live_programs g2)\<rparr>)
               else (Inr (Some program), g2)))"

text \<open>\<open>setupGeometry\<close>: the vertex count is stored and two buffers are created; the
  attribute bindings change nothing that is modelled here. The length of every vertex
  array is a multiple of 3, so the division of the source is exact.\<close>

definition setupGeometry :: "string \<Rightarrow> view_state \<Rightarrow> view_state" where
  "setupGeometry geometryType s =
     (let vertices = getGeometryVertices geometryType;
          normals = getGeometryNormals geometryType;
          s1 = s\<lparr>vertexCountRef := length vertices div 3\<rparr>;
          (positionBuffer, g1) = create_handle (gl s1);
          g2 = g1\<lparr>live_buffers := positionBuffer # live_buffers g1\<rparr>;
          (normalBuffer, g3) = create_handle g2;
          g4 = g3\<lparr>live_buffers := normalBuffer # live_buffers g3\<rparr>
      in s1\<lparr>gl := g4\<rparr>)"

text \<open>\<open>animate\<close>: one frame is drawn with the program and the vertex count of the refs,
  and the function registers itself for the next frame.\<close>

definition animate :: "host \<Rightarrow> view_state \<Rightarrow> view_state" where
  "animate h s =
     (if \<not> glRef s then s
      else case programRef s of
        None \<Rightarrow> s
      | Some program \<Rightarrow>
          if \<not> has_canvas h then s
          else (let g = (gl s)\<lparr>draw_calls := draw_calls (gl s) @ [(program, vertexCountRef s)]\<rparr>;
                    request = next_request s
                in s\<lparr>gl := g, animationRef := request, next_request := Suc request,
                     pending_frames := pending_frames s @ [request]\<rparr>))"

text \<open>\<open>renderShader\<close>: an exception leaves the state as it was when it was thrown; the
  \<open>catch\<close> block of the source logs and throws again.\<close>

definition renderShader :: "host \<Rightarrow> string \<Rightarrow> view_state \<Rightarrow> (error + unit) \<times> view_state" where
  "renderShader h shaderCodeText s =
     (if \<not> has_canvas h then (Inr (), s)
      else if \<not> has_webgl h then (Inr (), s)
      else (let s0 = s\<lparr>glRef := True\<rparr> in
        case split_bundle shaderCodeText of
          Inl e \<Rightarrow> (Inl e, s0)
        | Inr b \<Rightarrow>
           (let fragmentShaderCode = fixShaderIssues (fragmentSrc b) in
            case createShader h VERTEX_SHADER (vertexSrc b) (gl s0) of
              (Inl e, g1) \<Rightarrow> (Inl e, s0\<lparr>gl := g1\<rparr>)
            | (Inr vertexShader, g1) \<Rightarrow>
               (case createShader h FRAGMENT_SHADER fragmentShaderCode g1 of
                  (Inl e, g2) \<Rightarrow> (Inl e, s0\<lparr>gl := g2\<rparr>)
                | (Inr fragmentShader, g2) \<Rightarrow>
                   (case (vertexShader, fragmentShader) of
                      (Some vs, Some fs) \<Rightarrow>
                        (case createProgram h vs fs g2 of
                           (Inl e, g3) \<Rightarrow> (Inl e, s0\<lparr>gl := g3\<rparr>)
                         | (Inr None, g3) \<Rightarrow> (Inl FailedToCreateProgram, s0\<lparr>gl := g3\<rparr>)
                         | (Inr (Some program), g3) \<Rightarrow>
                             (let s1 = s0\<lparr>gl := g3, programRef := Some program\<rparr>;
                                  s2 = setupGeometry (geometryName b) s1;
                                  s3 = s2\<lparr>startTimeRef := now h\<rparr>
                              in (Inr (), animate h s3)))
                    | _ \<Rightarrow> (Inl FailedToCompileShaders, s0\<lparr>gl := g2\<rparr>))))))"

text \<open>The handles of a context are well formed when each live handle was handed out by the
  counter.\<close>

definition wf_gl :: "gl_context \<Rightarrow> bool" where
  "wf_gl g \<longleftrightarrow>
     (\<forall>x\<in>set (live_shaders g @ live_programs g @ live_buffers g). x < next_handle g)"

section \<open>Concrete inputs\<close>

definition bundle_ok :: string where
  "bundle_ok = ''// Vertex Shader'' @ [newline] @ ''void main() {}'' @ [newline]
     @ ''// Fragment Shader'' @ [newline] @ ''void main() {}''"

definition bundle_no_fragment :: string where
  "bundle_no_fragment = ''// Vertex Shader'' @ [newline] @ ''void main() {}''"

definition bundle_swapped :: string where
  "bundle_swapped = ''// Fragment Shader'' @ [newline] @ ''F'' @ [newline]
     @ ''// Vertex Shader'' @ [newline] @ ''V''"

definition default_precision :: string where
  "default_precision = ''precision mediump float;''"

definition src_precision_only :: string where
  "src_precision_only = ''precision time float;''"

definition src_blank_line :: string where
  "src_blank_line = ''precision mediump float;'' @ [newline, newline] @ ''void main() {}''"

definition src_comment_only :: string where
  "src_comment_only = ''void main() {} // precision''"

definition src_multiline :: string where
  "src_multiline = ''precision'' @ [newline] @ ''mediump float;'' @ [newline]
     @ ''void main() { gl_FragColor = vec4(time); }''"

definition src_two_statements :: string where
  "src_two_statements = ''precision'' @ [newline] @ ''highp float; precision mediump float;''
     @ [newline] @ ''void main() { gl_FragColor = vec4(time); }''"

definition src_plain :: string where
  "src_plain = ''void main() { gl_FragColor = vec4(vNormal, time); }''"

definition src_wellformed :: string where
  "src_wellformed = ''precision highp float;'' @ [newline] @ ''uniform float time;'' @ [newline]
     @ ''void main() { gl_FragColor = vec4(time); }''"

definition src_late_precision :: string where
  "src_late_precision = ''uniform float time;'' @ [newline] @ ''precision highp float;''
     @ [newline] @ ''void main() { gl_FragColor = vec4(time, vNormal); }''"

definition host_ok :: host where
  "host_ok = \<lparr>has_canvas = True, has_webgl = True, shader_alloc_ok = True,
     program_alloc_ok = True, compiles = (\<lambda>_ _. True), links = (\<lambda>_ _. True),
     info_log = ''ERROR'', now = 1000\<rparr>"

definition host_fragment_fails :: host where
  "host_fragment_fails = host_ok\<lparr>compiles := (\<lambda>type _. type = VERTEX_SHADER)\<rparr>"

definition host_link_fails :: host where
  "host_link_fails = host_ok\<lparr>links := (\<lambda>_ _. False)\<rparr>"

definition view_after_first :: view_state where
  "view_after_first = snd (renderShader host_ok bundle_ok initial_view)"

definition view_after_second :: view_state where
  "view_after_second = snd (renderShader host_ok bundle_ok view_after_first)"

section \<open>Facts about the string primitives\<close>

lemma indexOf_None_iff: "indexOf s p = None \<longleftrightarrow> \<not> occurs p s"
proof (induction s)
  case Nil
  then show ?case by (auto simp: occurs_def)
next
  case (Cons c cs)
  show ?case
  proof (cases "prefix p (c # cs)")
    case True
    then obtain b where "c # cs = p @ b" by (auto simp: prefix_def)
    then have "c # cs = [] @ p @ b" by simp
    then have "occurs p (c # cs)" unfolding occurs_def by blast
    with True show ?thesis by simp
  next
    case False
    have "occurs p (c # cs) \<longleftrightarrow> occurs p cs"
    proof
      assume "occurs p (c # cs)"
      then obtain a b where ab: "c # cs = a @ p @ b" unfolding occurs_def by blast
      show "occurs p cs"
      proof (cases a)
        case Nil
        with ab False show ?thesis by (simp add: prefix_def)
      next
        case (Cons x a')
        with ab have "cs = a' @ p @ b" by simp
        then show ?thesis unfolding occurs_def by blast
      qed
    next
      assume "occurs p cs"
      then obtain a b where "cs = a @ p @ b" unfolding occurs_def by blast
      then have "c # cs = (c # a) @ p @ b" by simp
      then show "occurs p (c # cs)" unfolding occurs_def by blast
    qed
    with False Cons.IH show ?thesis by simp
  qed
qed

lemma occurs_iff_indexOf: "occurs p s \<longleftrightarrow> indexOf s p \<noteq> None"
  by (simp add: indexOf_None_iff)

lemma str_includes_iff_occurs: "str_includes s p \<longleftrightarrow> occurs p s"
  by (simp add: str_includes_def indexOf_None_iff)

lemma indexOf_Some_prefix:
  "indexOf s p = Some i \<Longrightarrow> prefix p (drop i s) \<and> i \<le> length s"
proof (induction s arbitrary: i)
  case Nil
  then show ?case by (simp split: if_splits)
next
  case (Cons c cs)
  then show ?case by (auto split: if_splits)
qed

lemma indexOf_Some_first:
  "indexOf s p = Some i \<Longrightarrow> j < i \<Longrightarrow> \<not> prefix p (drop j s)"
proof (induction s arbitrary: i j)
  case Nil
  then show ?case by (simp split: if_splits)
next
  case (Cons c cs)
  show ?case
  proof (cases "prefix p (c # cs)")
    case True
    with Cons.prems show ?thesis by simp
  next
    case False
    with Cons.prems obtain i' where i': "indexOf cs p = Some i'" "i = Suc i'" by auto
    show ?thesis
    proof (cases j)
      case 0
      with False show ?thesis by simp
    next
      case (Suc j')
      with Cons.prems(2) i' have "j' < i'" by simp
      from Cons.IH [OF i'(1) this] Suc show ?thesis by simp
    qed
  qed
qed

lemma indexOf_prefix_0: "prefix p s \<Longrightarrow> indexOf s p = Some 0"
  by (cases s) auto

lemma occurs_drop: "occurs p (drop k s) \<Longrightarrow> occurs p s"
proof -
  assume "occurs p (drop k s)"
  then obtain a b where "drop k s = a @ p @ b" unfolding occurs_def by blast
  then have "take k s @ drop k s = (take k s @ a) @ p @ b" by simp
  then have "s = (take k s @ a) @ p @ b" by simp
  then show ?thesis unfolding occurs_def by blast
qed

lemma not_occurs_before_indexOf:
  assumes "indexOf s p = Some i" and "p \<noteq> []"
  shows "\<not> occurs p (take i s)"
proof
  assume "occurs p (take i s)"
  then obtain a b where ab: "take i s = a @ p @ b" unfolding occurs_def by blast
  from assms(1) have "i \<le> length s" by (simp add: indexOf_Some_prefix)
  with ab have len: "length a + length p + length b = i"
    by (metis length_append length_take min.absorb2 add.assoc)
  with assms(2) have lt: "length a < i" by (cases p) auto
  have "s = a @ p @ b @ drop i s" using ab by (metis append_take_drop_id append.assoc)
  then have "drop (length a) s = p @ b @ drop i s" by (metis append_eq_conv_conj)
  then have "prefix p (drop (length a) s)" by simp
  with indexOf_Some_first [OF assms(1) lt] show False by simp
qed

lemma occurs_across_newline:
  assumes "c \<notin> set p" and "p \<noteq> []"
  shows "occurs p (a @ c # b) \<longleftrightarrow> occurs p a \<or> occurs p b"
proof
  assume "occurs p (a @ c # b)"
  then obtain u v where uv: "a @ c # b = u @ p @ v" unfolding occurs_def by blast
  then consider us where "a = u @ us" "us @ c # b = p @ v"
    | us where "a @ us = u" "c # b = us @ p @ v"
    by (auto simp: append_eq_append_conv2)
  then show "occurs p a \<or> occurs p b"
  proof cases
    case 1
    from 1(2) consider w where "us = p @ w" | w where "us @ w = p" "c # b = w @ v" "w \<noteq> []"
      by (auto simp: append_eq_append_conv2) (metis append_Nil2)
    then show ?thesis
    proof cases
      case 1
      with \<open>a = u @ us\<close> have "a = u @ p @ w" by simp
      then show ?thesis unfolding occurs_def by blast
    next
      case 2
      then have "c \<in> set p" by (cases w) auto
      with assms show ?thesis by simp
    qed
  next
    case 2
    show ?thesis
    proof (cases us)
      case Nil
      with 2 assms(2) have "c \<in> set p" by (cases p) auto
      with assms show ?thesis by simp
    next
      case (Cons x us')
      with 2 have "b = us' @ p @ v" by simp
      then show ?thesis unfolding occurs_def by blast
    qed
  qed
next
  assume "occurs p a \<or> occurs p b"
  then show "occurs p (a @ c # b)"
  proof
    assume "occurs p a"
    then obtain u v where "a = u @ p @ v" unfolding occurs_def by blast
    then have "a @ c # b = u @ p @ (v @ c # b)" by simp
    then show ?thesis unfolding occurs_def by blast
  next
    assume "occurs p b"
    then obtain u v where "b = u @ p @ v" unfolding occurs_def by blast
    then have "a @ c # b = (a @ c # u) @ p @ v" by simp
    then show ?thesis unfolding occurs_def by blast
  qed
qed

lemma trim_id:
  assumes "s \<noteq> []" "\<not> is_space (hd s)" "\<not> is_space (last s)"
  shows "trim s = s"
proof -
  from assms have a: "dropWhile is_space s = s" by (cases s) auto
  from assms have "rev s \<noteq> []" "\<not> is_space (hd (rev s))" by (simp_all add: hd_rev)
  then have "dropWhile is_space (rev s) = rev s" by (cases "rev s") auto
  with a show ?thesis by (simp add: trim_def)
qed

lemma trim_Nil [simp]: "trim [] = []"
  by (simp add: trim_def)

lemma trim_trimmed:
  "trim s = [] \<or> (\<not> is_space (hd (trim s)) \<and> \<not> is_space (last (trim s)))"
proof (cases "trim s = []")
  case True then show ?thesis by simp
next
  case False
  let ?d = "dropWhile is_space (rev (dropWhile is_space s))"
  from False have ne: "?d \<noteq> []" by (simp add: trim_def)
  then have h: "\<not> is_space (hd ?d)" by (rule hd_dropWhile)
  have l: "last (trim s) = hd ?d" using ne by (simp add: trim_def last_rev)
  have "dropWhile is_space s \<noteq> []"
  proof
    assume a: "dropWhile is_space s = []"
    have "?d = []" unfolding a by simp
    with ne show False by simp
  qed
  then have h2: "\<not> is_space (hd (dropWhile is_space s))" by (rule hd_dropWhile)
  obtain k where k: "?d = drop k (rev (dropWhile is_space s))"
    by (metis dropWhile_eq_drop)
  have "hd (trim s) = last ?d" using ne by (simp add: trim_def hd_rev)
  also have "\<dots> = last (rev (dropWhile is_space s))" using ne k by (metis last_drop drop_eq_Nil not_le)
  also have "\<dots> = hd (dropWhile is_space s)" using \<open>dropWhile is_space s \<noteq> []\<close> by (simp add: last_rev)
  finally show ?thesis using h h2 l by simp
qed

lemma trim_idem: "trim (trim s) = trim s"
  using trim_trimmed [of s] by (cases "trim s = []") (auto intro: trim_id)

lemma trim_spaces_append:
  "(\<And>x. x \<in> set ws \<Longrightarrow> is_space x) \<Longrightarrow> trim (ws @ s) = trim s"
  by (simp add: trim_def dropWhile_append2)

lemma split_nl_not_Nil [simp]: "split_nl s \<noteq> []"
  by (induction s) (auto simp: Let_def)

lemma join_nl_Cons: "join_nl (l # ls) = (if ls = [] then l else l @ newline # join_nl ls)"
  by (cases ls) auto

lemma join_split_nl [simp]: "join_nl (split_nl s) = s"
proof (induction s)
  case Nil
  then show ?case by simp
next
  case (Cons c cs)
  obtain l ls where ls: "split_nl cs = l # ls" by (cases "split_nl cs") auto
  with Cons show ?case by (auto simp: Let_def join_nl_Cons split: if_splits)
qed

lemma split_nl_append_newline:
  "newline \<notin> set a \<Longrightarrow> split_nl (a @ newline # b) = a # split_nl b"
  by (induction a) (auto simp: Let_def)

section \<open>Facts about the precision pattern and the line operations\<close>

lemma consume_class:
  assumes "\<forall>x\<in>set ws. P x" and "\<not> P c"
  shows "takeWhile P (ws @ c # u) = ws" and "dropWhile P (ws @ c # u) = c # u"
  using assms by (simp_all add: takeWhile_append2 dropWhile_append2)

lemma precision_match_at_shape:
  assumes "precision_parts ws1 w ws2 ws3"
  shows "precision_match_at (precision_shape ws1 w ws2 ws3 @ rest)
     = Some (length (precision_shape ws1 w ws2 ws3))"
proof -
  from assms have ws1: "ws1 \<noteq> []" "\<forall>x\<in>set ws1. is_space x"
    and w: "w \<noteq> []" "\<forall>x\<in>set w. is_word x"
    and ws2: "ws2 \<noteq> []" "\<forall>x\<in>set ws2. is_space x"
    and ws3: "\<forall>x\<in>set ws3. is_space x"
    by (simp_all add: precision_parts_def)
  have disj: "\<And>x. is_word x \<Longrightarrow> \<not> is_space x"
    by (auto simp: is_word_def is_space_def Let_def)
  obtain a w' where wc: "w = a # w'" using w(1) by (cases w) auto
  obtain b ws2' where wsc: "ws2 = b # ws2'" using ws2(1) by (cases ws2) auto
  have na: "\<not> is_space a" using w(2) wc disj by simp
  have nb: "\<not> is_word b" using ws2(2) wsc disj by auto
  have nf: "\<not> is_space (CHR ''f'')" "\<not> is_space (CHR '';'')" by (simp_all add: is_space_def)
  define s5 where "s5 = CHR '';'' # rest"
  define s4 where "s4 = ''float'' @ ws3 @ s5"
  define s3 where "s3 = ws2 @ s4"
  define s2 where "s2 = w @ s3"
  define s1 where "s1 = ws1 @ s2"
  define s where "s = ''precision'' @ s1"
  have e: "precision_shape ws1 w ws2 ws3 @ rest = s"
    by (simp add: precision_shape_def s_def s1_def s2_def s3_def s4_def s5_def)
  have p: "prefix ''precision'' s" by (simp add: s_def)
  have d9: "drop 9 s = s1" by (simp add: s_def)
  have t1: "takeWhile is_space s1 = ws1" "dropWhile is_space s1 = s2"
    unfolding s1_def s2_def wc using consume_class [OF ws1(2) na] by simp_all
  have t2: "takeWhile is_word s2 = w" "dropWhile is_word s2 = s3"
    unfolding s2_def s3_def wsc using consume_class [OF w(2) nb] by simp_all
  have t3: "takeWhile is_space s3 = ws2" "dropWhile is_space s3 = s4"
    unfolding s3_def s4_def using consume_class [OF ws2(2) nf(1)] by simp_all
  have p4: "prefix ''float'' s4" by (simp add: s4_def)
  have d5: "drop 5 s4 = ws3 @ s5" by (simp add: s4_def)
  have t5: "dropWhile is_space (ws3 @ CHR '';'' # rest) = CHR '';'' # rest"
    using consume_class [OF ws3 nf(2)] by simp
  have len: "length s - length rest = length (precision_shape ws1 w ws2 ws3)"
    unfolding e [symmetric] by simp
  have "precision_match_at s = Some (length s - length rest)"
    unfolding precision_match_at_def Let_def
    by (simp only: p d9 t1 t2 t3 p4 d5 t5 ws1(1) w(1) ws2(1) s5_def
          not_True_eq_False if_False list.case if_True refl simp_thms)
  then show ?thesis by (simp only: e len)
qed


lemma precision_match_at_SomeD:
  assumes L: "precision_match_at s = Some n"
  shows "\<exists>ws1 w ws2 ws3 rest. precision_parts ws1 w ws2 ws3
     \<and> s = precision_shape ws1 w ws2 ws3 @ rest
     \<and> n = length (precision_shape ws1 w ws2 ws3)"
proof -
  define s1 where "s1 = drop 9 s"
  define s2 where "s2 = dropWhile is_space s1"
  define s3 where "s3 = dropWhile is_word s2"
  define s4 where "s4 = dropWhile is_space s3"
  define d5 where "d5 = drop 5 s4"
  define s5 where "s5 = dropWhile is_space d5"
  define ws1 where "ws1 = takeWhile is_space s1"
  define w where "w = takeWhile is_word s2"
  define ws2 where "ws2 = takeWhile is_space s3"
  define ws3 where "ws3 = takeWhile is_space d5"
  have u: "precision_match_at s =
     (if \<not> prefix ''precision'' s then None
      else if ws1 = [] then None
      else if w = [] then None
      else if ws2 = [] then None
      else if \<not> prefix ''float'' s4 then None
      else (case s5 of [] \<Rightarrow> None
            | c # rest \<Rightarrow> if c = CHR '';'' then Some (length s - length rest) else None))"
    unfolding precision_match_at_def Let_def s1_def s2_def s3_def s4_def d5_def s5_def
      ws1_def w_def ws2_def ws3_def by (rule refl)
  from L u have p: "prefix ''precision'' s" and n1: "ws1 \<noteq> []" and n2: "w \<noteq> []"
    and n3: "ws2 \<noteq> []" and pf: "prefix ''float'' s4"
    by (auto split: if_splits)
  with L u obtain rest where r: "s5 = CHR '';'' # rest" and n: "n = length s - length rest"
    by (auto split: if_splits list.splits)
  from p have e0: "''precision'' @ s1 = s" by (auto simp: prefix_def s1_def)
  have e1: "ws1 @ s2 = s1" by (simp add: ws1_def s2_def)
  have e2: "w @ s3 = s2" by (simp add: w_def s3_def)
  have e3: "ws2 @ s4 = s3" by (simp add: ws2_def s4_def)
  from pf have e4: "''float'' @ d5 = s4" by (auto simp: prefix_def d5_def)
  have e5: "ws3 @ s5 = d5" by (simp add: ws3_def s5_def)
  have "precision_shape ws1 w ws2 ws3 @ rest
     = ''precision'' @ (ws1 @ (w @ (ws2 @ (''float'' @ (ws3 @ (CHR '';'' # rest))))))"
    by (simp add: precision_shape_def)
  also have "\<dots> = s"
    by (simp only: r [symmetric] e5 e4 e3 e2 e1 e0)
  finally have eq: "s = precision_shape ws1 w ws2 ws3 @ rest" by simp
  have "length s = length (precision_shape ws1 w ws2 ws3) + length rest"
    by (subst eq) simp
  with n have len: "n = length (precision_shape ws1 w ws2 ws3)" by simp
  have "precision_parts ws1 w ws2 ws3"
    unfolding precision_parts_def using n1 n2 n3
    by (auto simp: ws1_def w_def ws2_def ws3_def dest: set_takeWhileD)
  with eq len show ?thesis by blast
qed

lemma precision_match_at_take:
  assumes "precision_match_at s = Some n"
  shows "precision_match_at (take n s @ u) = Some n"
    and "n \<le> length s" and "prefix ''precision'' (take n s)" and "length (take n s) = n"
proof -
  from precision_match_at_SomeD [OF assms] obtain ws1 w ws2 ws3 rest where
    pp: "precision_parts ws1 w ws2 ws3" and s: "s = precision_shape ws1 w ws2 ws3 @ rest"
    and n: "n = length (precision_shape ws1 w ws2 ws3)" by blast
  have t: "take n s = precision_shape ws1 w ws2 ws3" by (simp add: s n)
  show "precision_match_at (take n s @ u) = Some n"
    unfolding t using precision_match_at_shape [OF pp] n by simp
  show "n \<le> length s" by (simp add: s n)
  show "prefix ''precision'' (take n s)" unfolding t by (simp add: precision_shape_def)
  show "length (take n s) = n" unfolding t by (simp add: n)
qed

lemma precision_match_SomeD:
  "precision_match s = Some (i, n) \<Longrightarrow>
     precision_match_at (drop i s) = Some n \<and> i \<le> length s
     \<and> (\<forall>j<i. precision_match_at (drop j s) = None)"
proof (induction s arbitrary: i)
  case Nil
  then show ?case by simp
next
  case (Cons c cs)
  show ?case
  proof (cases "precision_match_at (c # cs)")
    case (Some m)
    with Cons.prems show ?thesis by simp
  next
    case None
    with Cons.prems obtain i' where i': "precision_match cs = Some (i', n)" "i = Suc i'"
      by auto
    from Cons.IH [OF i'(1)] have ih: "precision_match_at (drop i' cs) = Some n" "i' \<le> length cs"
      "\<forall>j<i'. precision_match_at (drop j cs) = None" by simp_all
    have "precision_match_at (drop j (c # cs)) = None" if "j < i" for j
      using that None ih(3) i'(2) by (cases j) auto
    with ih i'(2) show ?thesis by simp
  qed
qed

lemma precision_match_head:
  "precision_match_at s = Some n \<Longrightarrow> precision_match s = Some (0, n)"
  by (cases s) (auto simp: precision_match_at_def)

lemma precision_match_indexOf:
  assumes "precision_match t = Some (i, n)"
  shows "indexOf t (take n (drop i t)) = Some i"
proof -
  let ?P = "take n (drop i t)"
  from precision_match_SomeD [OF assms] have at: "precision_match_at (drop i t) = Some n"
    and first: "\<forall>j<i. precision_match_at (drop j t) = None" by simp_all
  have "drop i t = ?P @ drop n (drop i t)" by (simp only: append_take_drop_id)
  then have "t = take i t @ ?P @ drop n (drop i t)" by (metis append_take_drop_id)
  then have "occurs ?P t" unfolding occurs_def by blast
  then obtain j where j: "indexOf t ?P = Some j" by (auto simp: occurs_iff_indexOf)
  have pi: "prefix ?P (drop i t)" by (simp add: take_is_prefix)
  have "\<not> i < j" using indexOf_Some_first [OF j] pi by blast
  moreover have "\<not> j < i"
  proof
    assume lt: "j < i"
    from indexOf_Some_prefix [OF j] obtain u where u: "drop j t = ?P @ u"
      by (auto simp: prefix_def)
    from precision_match_at_take(1) [OF at, of u] u
    have "precision_match_at (drop j t) = Some n" by simp
    with first lt show False by simp
  qed
  ultimately show ?thesis using j by simp
qed

lemma ensure_precision_default:
  "\<not> str_includes (trim x) ''precision'' \<Longrightarrow>
     ensure_precision x = ''precision mediump float;'' @ newline # trim x"
  by (simp add: ensure_precision_def Let_def)

lemma ensure_precision_found:
  assumes "precision_match (trim x) = Some (i, n)"
  shows "ensure_precision x = take n (drop i (trim x)) @ newline
     # trim (take i (trim x) @ drop (i + n) (trim x))"
proof -
  let ?t = "trim x"
  let ?P = "take n (drop i ?t)"
  from precision_match_SomeD [OF assms] have at: "precision_match_at (drop i ?t) = Some n"
    by simp
  have len: "length ?P = n" using precision_match_at_take(4) [OF at] .
  have idx: "indexOf ?t ?P = Some i" using precision_match_indexOf [OF assms] .
  have "prefix ''precision'' ?P" using precision_match_at_take(3) [OF at] .
  then obtain v where "?P = ''precision'' @ v" by (auto simp: prefix_def)
  then have "?t = take i ?t @ ''precision'' @ v @ drop n (drop i ?t)"
    by (metis append_take_drop_id append.assoc)
  then have "occurs ''precision'' ?t" unfolding occurs_def by blast
  then have inc: "str_includes ?t ''precision''" by (simp add: str_includes_iff_occurs)
  have rep: "replace_str ?t ?P [] = take i ?t @ drop (i + n) ?t"
    unfolding replace_str_def idx len by simp
  show ?thesis
    unfolding ensure_precision_def Let_def using inc assms rep by simp
qed

lemma uniform_declarations_eq:
  "(if str_includes f ''time'' \<and> \<not> str_includes f ''uniform float time''
      then ''uniform float time;'' @ [newline] else [])
   @ (if str_includes f ''resolution'' \<and> \<not> str_includes f ''uniform vec2 resolution''
      then ''uniform vec2 resolution;'' @ [newline] else [])
   @ (if str_includes f ''vNormal'' \<and> \<not> str_includes f ''varying vec3 vNormal''
      then ''varying vec3 vNormal;'' @ [newline] else [])
   @ (if str_includes f ''vPosition'' \<and> \<not> str_includes f ''varying vec3 vPosition''
      then ''varying vec3 vPosition;'' @ [newline] else [])
   = declaration_block f"
  by (simp add: declaration_block_def needed_declarations_def declaration_table_def)

lemma insert_declarations_alt:
  "insert_declarations f =
     (if declaration_block f \<noteq> []
      then (case findIndex (\<lambda>line. str_includes line ''precision'') (split_nl f) of
              Some k \<Rightarrow> join_nl (splice_insert (split_nl f) (k + 1) (trim (declaration_block f)))
            | None \<Rightarrow> declaration_block f @ f)
      else f)"
  unfolding insert_declarations_def Let_def uniform_declarations_eq by (rule refl)

lemma trim_declaration_block:
  "declaration_block f \<noteq> [] \<Longrightarrow> trim (declaration_block f) @ [newline] = declaration_block f"
  unfolding uniform_declarations_eq [symmetric]
  by (cases "str_includes f ''time'' \<and> \<not> str_includes f ''uniform float time''";
      cases "str_includes f ''resolution'' \<and> \<not> str_includes f ''uniform vec2 resolution''";
      cases "str_includes f ''vNormal'' \<and> \<not> str_includes f ''varying vec3 vNormal''";
      cases "str_includes f ''vPosition'' \<and> \<not> str_includes f ''varying vec3 vPosition''")
     (simp_all only: if_True if_False append_Nil append_Nil2 append_Cons trim_def
        dropWhile.simps rev.simps is_space_def newline_def char.inject simp_thms
        not_True_eq_False)

lemma str_includes_prefix: "prefix p s \<Longrightarrow> str_includes s p"
  by (simp add: str_includes_def indexOf_prefix_0)

text \<open>Where the declarations land when the precision statement is the first line.\<close>

lemma insert_declarations_after_first_line:
  assumes "prefix ''precision'' P" and "newline \<notin> set P"
  shows "insert_declarations (P @ newline # r)
     = P @ newline # declaration_block (P @ newline # r) @ r"
proof (cases "declaration_block (P @ newline # r) = []")
  case True
  then show ?thesis by (simp add: insert_declarations_alt)
next
  case False
  let ?f = "P @ newline # r"
  let ?D = "declaration_block ?f"
  have lines: "split_nl ?f = P # split_nl r"
    using assms(2) by (rule split_nl_append_newline)
  have idx: "findIndex (\<lambda>line. str_includes line ''precision'') (split_nl ?f) = Some 0"
    using assms(1) by (simp add: lines str_includes_prefix)
  have "join_nl (splice_insert (split_nl ?f) (0 + 1) (trim ?D))
      = P @ newline # trim ?D @ newline # join_nl (split_nl r)"
    by (simp add: lines splice_insert_def join_nl_Cons)
  also have "\<dots> = P @ newline # (trim ?D @ [newline]) @ r" by simp
  also have "\<dots> = P @ newline # ?D @ r"
    using trim_declaration_block [OF False] by simp
  finally show ?thesis using False by (simp add: insert_declarations_alt idx)
qed

lemma str_includes_across_newline:
  assumes "newline \<notin> set p" and "p \<noteq> []"
  shows "str_includes (a @ newline # b) p \<longleftrightarrow> str_includes a p \<or> str_includes b p"
  using occurs_across_newline [OF assms] by (simp add: str_includes_iff_occurs)

lemma str_includes_lines_inserted:
  assumes "newline \<notin> set p" and "p \<noteq> []"
  shows "str_includes (P @ newline # concat (map (\<lambda>d. d @ [newline]) ds) @ r) p
     \<longleftrightarrow> str_includes (P @ newline # r) p \<or> (\<exists>d\<in>set ds. str_includes d p)"
proof -
  have "str_includes (concat (map (\<lambda>d. d @ [newline]) ds) @ r) p
     \<longleftrightarrow> str_includes r p \<or> (\<exists>d\<in>set ds. str_includes d p)"
    by (induction ds) (auto simp: str_includes_across_newline [OF assms])
  then show ?thesis by (auto simp: str_includes_across_newline [OF assms])
qed

text \<open>A declaration line mentions no recognized identifier but its own.\<close>

lemma declaration_lines_disjoint:
  "\<forall>(ident, decl)\<in>set declaration_table. \<forall>(ident', decl')\<in>set declaration_table.
     str_includes (decl' @ '';'') ident \<longrightarrow> decl' = decl"
  by code_simp

text \<open>After the insertion no declaration is needed any more.\<close>

lemma needed_declarations_after_insertion:
  "needed_declarations (P @ newline # declaration_block (P @ newline # r) @ r) = []"
proof -
  let ?f = "P @ newline # r"
  let ?y = "P @ newline # declaration_block ?f @ r"
  have inc: "str_includes ?y p \<longleftrightarrow>
      str_includes ?f p \<or> (\<exists>d\<in>set (needed_declarations ?f). str_includes d p)"
    if "newline \<notin> set p" "p \<noteq> []" for p
    unfolding declaration_block_def using str_includes_lines_inserted [OF that] .
  have own: "str_includes (decl @ '';'') decl" for decl
    by (rule str_includes_prefix) simp
  have "\<not> (str_includes ?y ident \<and> \<not> str_includes ?y decl)"
    if "(ident, decl) \<in> set declaration_table" for ident decl
  proof
    assume a: "str_includes ?y ident \<and> \<not> str_includes ?y decl"
    from that have nl: "newline \<notin> set ident" "ident \<noteq> []" "newline \<notin> set decl" "decl \<noteq> []"
      by (auto simp: declaration_table_def newline_def)
    from a have nd: "\<not> str_includes ?f decl"
      and nn: "\<forall>d\<in>set (needed_declarations ?f). \<not> str_includes d decl"
      using inc [OF nl(3,4)] by auto
    from nn that own have nneed: "\<not> (str_includes ?f ident \<and> \<not> str_includes ?f decl)"
      by (force simp: needed_declarations_def)
    with nd have "\<not> str_includes ?f ident" by simp
    with a inc [OF nl(1,2)] obtain d where d: "d \<in> set (needed_declarations ?f)"
      "str_includes d ident" by auto
    from d(1) obtain ident' decl' where t': "(ident', decl') \<in> set declaration_table"
      "d = decl' @ '';''" by (auto simp: needed_declarations_def)
    have "str_includes (decl' @ '';'') ident \<Longrightarrow> decl' = decl"
      using that t'(1) declaration_lines_disjoint by blast
    with d(2) t'(2) have "decl' = decl" by simp
    with nn d(1) t'(2) own show False by auto
  qed
  then show ?thesis
    by (auto simp: needed_declarations_def filter_empty_conv)
qed

lemma hd_declaration_block:
  "declaration_block f \<noteq> [] \<Longrightarrow> \<not> is_space (hd (declaration_block f))"
  unfolding uniform_declarations_eq [symmetric]
  by (cases "str_includes f ''time'' \<and> \<not> str_includes f ''uniform float time''";
      cases "str_includes f ''resolution'' \<and> \<not> str_includes f ''uniform vec2 resolution''";
      cases "str_includes f ''vNormal'' \<and> \<not> str_includes f ''varying vec3 vNormal''";
      cases "str_includes f ''vPosition'' \<and> \<not> str_includes f ''varying vec3 vPosition''")
     (simp_all add: is_space_def)

lemma trimmed_ends:
  assumes "trim r = r" and "r \<noteq> []"
  shows "\<not> is_space (hd r)" and "\<not> is_space (last r)"
  using trim_trimmed [of r] assms by simp_all

lemma trim_newline_block:
  assumes "trim r = r" and "r \<noteq> []"
  shows "trim (newline # declaration_block f @ r) = declaration_block f @ r"
proof -
  have "trim (newline # declaration_block f @ r) = trim ([newline] @ (declaration_block f @ r))"
    by simp
  also have "\<dots> = trim (declaration_block f @ r)"
    by (rule trim_spaces_append) (simp add: is_space_def newline_def)
  also have "\<dots> = declaration_block f @ r"
  proof (rule trim_id)
    show "declaration_block f @ r \<noteq> []" using assms(2) by simp
    show "\<not> is_space (hd (declaration_block f @ r))"
      using hd_declaration_block [of f] trimmed_ends(1) [OF assms]
      by (cases "declaration_block f = []") simp_all
    show "\<not> is_space (last (declaration_block f @ r))"
      using trimmed_ends(2) [OF assms] assms(2) by simp
  qed
  finally show ?thesis .
qed

lemma trim_statement_body:
  assumes "prefix ''precision'' P" and "trim r = r" and "r \<noteq> []"
  shows "trim (P @ newline # m @ r) = P @ newline # m @ r"
proof (rule trim_id)
  from assms(1) obtain v where P: "P = ''precision'' @ v" by (auto simp: prefix_def)
  show "P @ newline # m @ r \<noteq> []" by simp
  show "\<not> is_space (hd (P @ newline # m @ r))" by (simp add: P is_space_def)
  show "\<not> is_space (last (P @ newline # m @ r))"
    using trimmed_ends(2) [OF assms(2,3)] assms(3) by simp
qed

text \<open>A repaired text of the regular shape is a fixed point of the repair.\<close>

lemma fixShaderIssues_stable:
  assumes at: "precision_match_at P = Some (length P)"
    and nl: "newline \<notin> set P" and r: "trim r = r" "r \<noteq> []"
  shows "fixShaderIssues (P @ newline # declaration_block (P @ newline # r) @ r)
     = P @ newline # declaration_block (P @ newline # r) @ r"
proof -
  let ?D = "declaration_block (P @ newline # r)"
  let ?y = "P @ newline # ?D @ r"
  from precision_match_at_take(3) [OF at] have pre: "prefix ''precision'' P" by simp
  have ty: "trim ?y = ?y" using pre r by (rule trim_statement_body)
  from precision_match_at_take(1) [OF at, of "newline # ?D @ r"]
  have "precision_match_at ?y = Some (length P)" by simp
  then have pm: "precision_match (trim ?y) = Some (0, length P)"
    unfolding ty by (rule precision_match_head)
  have "ensure_precision ?y = P @ newline # trim (newline # ?D @ r)"
    using ensure_precision_found [OF pm] by (simp add: ty)
  then have ep: "ensure_precision ?y = ?y"
    by (simp add: trim_newline_block [OF r])
  have "needed_declarations ?y = []" by (rule needed_declarations_after_insertion)
  then have "declaration_block ?y = []" unfolding declaration_block_def [of ?y] by simp
  then have "insert_declarations ?y = ?y" by (simp add: insert_declarations_alt)
  with ep show ?thesis by (simp add: fixShaderIssues_def)
qed

text \<open>The shape of the repaired text in the two regular cases.\<close>

lemma fixShaderIssues_default_shape:
  assumes "\<not> str_includes (trim x) ''precision''"
  shows "fixShaderIssues x = default_precision @ newline
     # declaration_block (default_precision @ newline # trim x) @ trim x"
proof -
  have pre: "prefix ''precision'' default_precision"
    by (simp add: default_precision_def)
  have nl: "newline \<notin> set default_precision"
    by (simp add: default_precision_def newline_def)
  have e: "ensure_precision x = default_precision @ newline # trim x"
    using ensure_precision_default [OF assms] by (simp add: default_precision_def)
  show ?thesis
    unfolding fixShaderIssues_def e by (rule insert_declarations_after_first_line [OF pre nl])
qed

lemma fixShaderIssues_found_shape:
  assumes "precision_match (trim x) = Some (i, n)"
    and "newline \<notin> set (take n (drop i (trim x)))"
  shows "fixShaderIssues x = take n (drop i (trim x)) @ newline
     # declaration_block (take n (drop i (trim x)) @ newline
          # trim (take i (trim x) @ drop (i + n) (trim x)))
       @ trim (take i (trim x) @ drop (i + n) (trim x))"
proof -
  from precision_match_SomeD [OF assms(1)]
  have at: "precision_match_at (drop i (trim x)) = Some n" by simp
  have pre: "prefix ''precision'' (take n (drop i (trim x)))"
    using precision_match_at_take(3) [OF at] .
  show ?thesis
    unfolding fixShaderIssues_def ensure_precision_found [OF assms(1)]
    using insert_declarations_after_first_line [OF pre assms(2)] .
qed

lemma default_precision_match: "precision_match_at (default_precision @ u) = Some 24"
proof -
  have pp: "precision_parts '' '' ''mediump'' '' '' []"
    by (simp add: precision_parts_def is_space_def is_word_def)
  have "precision_shape '' '' ''mediump'' '' '' [] = default_precision"
    by (simp add: precision_shape_def default_precision_def)
  with precision_match_at_shape [OF pp, of u] show ?thesis
    by (simp add: default_precision_def)
qed

section \<open>Facts about the geometry generators\<close>

lemma fold_push: "fold (\<lambda>j ts. ts @ g j) xs ts = ts @ concat (map g xs)"
  by (induction xs arbitrary: ts) simp_all

lemma sum_list_const_upt: "sum_list (map (\<lambda>_. c) [0..<n]) = n * (c::nat)"
  by (induction n) simp_all

lemma length_generateTorus:
  "length (generateTorus R r m n) = 18 * m * n"
  by (simp add: generateTorus_def Let_def fold_push length_concat comp_def sum_list_const_upt)

lemma length_generateTorusNormals:
  "length (generateTorusNormals R r m n) = 18 * m * n"
  by (simp add: generateTorusNormals_def Let_def fold_push length_concat comp_def sum_list_const_upt)

lemma length_generateCylinder:
  "length (generateCylinder R h n) = 18 * n"
  by (simp add: generateCylinder_def Let_def fold_push length_concat comp_def sum_list_const_upt)

lemma length_generateCylinderNormals:
  "length (generateCylinderNormals R h n) = 18 * n"
  by (simp add: generateCylinderNormals_def Let_def fold_push length_concat comp_def sum_list_const_upt)

lemma sum_list_skip_one:
  "sum_list (map (\<lambda>i. if i \<noteq> x then b else 0) [0..<k])
     = (if x < k then k - 1 else k) * (b::nat)"
proof (induction k)
  case 0
  then show ?case by simp
next
  case (Suc k)
  show ?case
  proof (cases "x < k")
    case True
    then obtain k' where "k = Suc k'" by (cases k) auto
    with True Suc show ?thesis by simp
  next
    case False
    with Suc show ?thesis by auto
  qed
qed

lemma length_if: "length (if c then xs else ys) = (if c then length xs else length ys)"
  by simp

lemma length_generateSphere:
  "length (generateSphere R w h) = 18 * w * (h - 1)"
proof (cases h)
  case 0
  then show ?thesis by (simp add: generateSphere_def)
next
  case (Suc h')
  have last_row: "int i \<noteq> int h - 1 \<longleftrightarrow> i \<noteq> h'" for i
    using Suc by auto
  have "length (generateSphere R w h)
      = sum_list (map (\<lambda>i. sum_list (map (\<lambda>j. (if i \<noteq> 0 then 9 else 0)
           + (if i \<noteq> h' then 9 else 0)) [0..<w])) [0..<h])"
    unfolding generateSphere_def Let_def fold_push last_row
    by (simp add: length_concat comp_def length_if eval_nat_numeral del: upt_Suc cong: if_cong)
  also have "\<dots> = w * (sum_list (map (\<lambda>i. if i \<noteq> 0 then 9 else 0) [0..<h])
      + sum_list (map (\<lambda>i. if i \<noteq> h' then 9 else 0) [0..<h]))"
    by (simp add: sum_list_const_upt sum_list_addf sum_list_const_mult distrib_left del: upt_Suc)
  also have "\<dots> = 18 * w * (h - 1)"
    unfolding sum_list_skip_one using Suc by simp
  finally show ?thesis .
qed

lemma length_generateSphereNormals:
  "length (generateSphereNormals R w h) = 18 * w * (h - 1)"
proof (cases h)
  case 0
  then show ?thesis by (simp add: generateSphereNormals_def)
next
  case (Suc h')
  have last_row: "int i \<noteq> int h - 1 \<longleftrightarrow> i \<noteq> h'" for i
    using Suc by auto
  have "length (generateSphereNormals R w h)
      = sum_list (map (\<lambda>i. sum_list (map (\<lambda>j. (if i \<noteq> 0 then 9 else 0)
           + (if i \<noteq> h' then 9 else 0)) [0..<w])) [0..<h])"
    unfolding generateSphereNormals_def Let_def fold_push last_row
    by (simp add: length_concat comp_def length_if eval_nat_numeral del: upt_Suc cong: if_cong)
  also have "\<dots> = w * (sum_list (map (\<lambda>i. if i \<noteq> 0 then 9 else 0) [0..<h])
      + sum_list (map (\<lambda>i. if i \<noteq> h' then 9 else 0) [0..<h]))"
    by (simp add: sum_list_const_upt sum_list_addf sum_list_const_mult distrib_left del: upt_Suc)
  also have "\<dots> = 18 * w * (h - 1)"
    unfolding sum_list_skip_one using Suc by simp
  finally show ?thesis .
qed

lemma length_literal_arrays:
  "length cube_vertices = 108" "length cube_normals = 108"
  "length plane_vertices = 18" "length plane_normals = 18"
  "length default_vertices = 108" "length default_normals = 108"
  by (simp_all add: cube_vertices_def cube_normals_def plane_vertices_def plane_normals_def
        default_vertices_def default_normals_def)

lemma default_arrays_are_cube:
  "default_vertices = cube_vertices" "default_normals = cube_normals"
  by (simp_all add: cube_vertices_def cube_normals_def default_vertices_def default_normals_def)

lemma length_getGeometryVertices:
  "length (getGeometryVertices t) =
     (let n = toLowerCase t in
      if n = ''sphere'' then 6840 else if n = ''plane'' then 18
      else if n = ''cylinder'' then 288 else if n = ''torus'' then 4608 else 108)"
  by (simp add: getGeometryVertices_def Let_def length_literal_arrays length_generateSphere
        length_generateCylinder length_generateTorus)

lemma length_getGeometryNormals:
  "length (getGeometryNormals t) =
     (let n = toLowerCase t in
      if n = ''sphere'' then 6840 else if n = ''plane'' then 18
      else if n = ''cylinder'' then 288 else if n = ''torus'' then 4608 else 108)"
  by (simp add: getGeometryNormals_def Let_def length_literal_arrays length_generateSphereNormals
        length_generateCylinderNormals length_generateTorusNormals)

lemma concat_blocks:
  assumes "\<And>i. i < n \<Longrightarrow> length (f i) = c"
  shows "length (concat (map f [0..<n])) = n * c"
    and "i < n \<Longrightarrow> q < c \<Longrightarrow> concat (map f [0..<n]) ! (i * c + q) = f i ! q"
proof -
  show len: "length (concat (map f [0..<n])) = n * c"
    using assms by (induction n) simp_all
  show "i < n \<Longrightarrow> q < c \<Longrightarrow> concat (map f [0..<n]) ! (i * c + q) = f i ! q"
    using assms
  proof (induction n)
    case 0
    then show ?case by simp
  next
    case (Suc n)
    have l: "length (concat (map f [0..<n])) = n * c"
      using Suc.prems(3) by (induction n) simp_all
    show ?case
    proof (cases "i < n")
      case True
      then have "Suc i \<le> n" by simp
      then have "Suc i * c \<le> n * c" by (rule mult_le_mono1)
      with Suc.prems(2) have "i * c + q < n * c" by simp
      with Suc True l show ?thesis by (simp add: nth_append)
    next
      case False
      with Suc.prems(1) have "i = n" by simp
      with l show ?thesis by (simp add: nth_append)
    qed
  qed
qed

lemma triples_append:
  "3 dvd length xs \<Longrightarrow> triples (xs @ ys) = triples xs @ triples ys"
proof (induction xs rule: triples.induct, goal_cases)
  case (1 x y z rest)
  from 1(2) have "3 dvd Suc (Suc (Suc (length rest)))" by simp
  then have "3 dvd length rest" by presburger
  with 1(1) show ?case by simp
next
  case 2
  then show ?case by simp
next
  case (3 v)
  then have "3 dvd Suc 0" by simp
  then show ?case by presburger
next
  case (4 v va)
  then have "3 dvd Suc (Suc 0)" by simp
  then show ?case by presburger
qed

lemma triples_concat:
  "(\<And>x. x \<in> set xs \<Longrightarrow> 3 dvd length (f x)) \<Longrightarrow>
     triples (concat (map f xs)) = concat (map (\<lambda>x. triples (f x)) xs)"
  by (induction xs) (simp_all add: triples_append)

lemma dvd_length_concat:
  "(\<And>x. x \<in> set xs \<Longrightarrow> (3::nat) dvd length (f x)) \<Longrightarrow> 3 dvd length (concat (map f xs))"
  by (induction xs) simp_all

text \<open>Reading the vector with number \<open>k\<close> from an array that was filled row by row with
  one vector for each point of a grid.\<close>

lemma grid_array_read:
  assumes "k < H * W" and True: "q < 3"
  shows "nth_opt (fold (\<lambda>i ns. fold (\<lambda>j ns. ns @ [f i j, g i j, h i j]) [0..<W] ns) [0..<H] [])
           (k * 3 + q)
     = Some ([f (k div W) (k mod W), g (k div W) (k mod W), h (k div W) (k mod W)] ! q)"
proof -
  let ?cell = "\<lambda>i j. [f i j, g i j, h i j]"
  let ?row = "\<lambda>i. concat (map (?cell i) [0..<W])"
  let ?N = "concat (map ?row [0..<H])"
  have N: "fold (\<lambda>i ns. fold (\<lambda>j ns. ns @ [f i j, g i j, h i j]) [0..<W] ns) [0..<H] [] = ?N"
    by (simp add: fold_push)
  from assms have W: "0 < W" by (cases W) auto
  let ?i = "k div W" and ?j = "k mod W"
  have i: "?i < H" using assms W by (simp add: less_mult_imp_div_less)
  have j: "?j < W" using W by simp
  have rowlen: "length (?row i) = W * 3" for i
    using concat_blocks(1) [of W "?cell i" 3] by simp
  have len: "length ?N = H * (W * 3)"
    using concat_blocks(1) [of H ?row "W * 3"] rowlen by simp
  have jq: "?j * 3 + q < W * 3" using j True by simp
  have idx: "k * 3 + q = ?i * (W * 3) + (?j * 3 + q)"
  proof -
    have "(a * W + b) * 3 + q = a * (W * 3) + (b * 3 + q)" for a b :: nat
      by (simp add: algebra_simps)
    from this [of ?i ?j] show ?thesis by (simp only: div_mult_mod_eq)
  qed
  have r1: "?N ! (?i * (W * 3) + (?j * 3 + q)) = ?row ?i ! (?j * 3 + q)"
    using concat_blocks(2) [of H ?row "W * 3" ?i "?j * 3 + q"] rowlen i jq by simp
  have r2: "?row ?i ! (?j * 3 + q) = ?cell ?i ?j ! q"
    using concat_blocks(2) [of W "?cell ?i" 3 ?j q] j True by simp
  have r: "?N ! (k * 3 + q) = ?cell ?i ?j ! q"
    unfolding idx using r1 r2 by (rule trans)
  have "Suc ?i * (W * 3) \<le> H * (W * 3)" using i by (intro mult_le_mono1) simp
  with jq have "?i * (W * 3) + (?j * 3 + q) < H * (W * 3)" by simp
  then have lt: "k * 3 + q < length ?N" unfolding idx len .
  show ?thesis
    unfolding N nth_opt_def using r lt by (simp only: if_True)
qed

lemma grid_array_unit:
  assumes "\<And>i j. f i j * f i j + g i j * g i j + h i j * h i j = (1::real)"
    and "k < H * W"
  shows "unit_normal
     (nth_opt (fold (\<lambda>i ns. fold (\<lambda>j ns. ns @ [f i j, g i j, h i j]) [0..<W] ns) [0..<H] [])
        (k * 3),
      nth_opt (fold (\<lambda>i ns. fold (\<lambda>j ns. ns @ [f i j, g i j, h i j]) [0..<W] ns) [0..<H] [])
        (k * 3 + 1),
      nth_opt (fold (\<lambda>i ns. fold (\<lambda>j ns. ns @ [f i j, g i j, h i j]) [0..<W] ns) [0..<H] [])
        (k * 3 + 2))"
  using grid_array_read [OF assms(2), of 0 f g h] grid_array_read [OF assms(2), of 1 f g h]
    grid_array_read [OF assms(2), of 2 f g h] assms(1)
  by simp

lemma grid_cells_unit:
  assumes "\<And>i j. 3 dvd length (T i j)"
    and "\<And>i j t. i < m \<Longrightarrow> j < n \<Longrightarrow> t \<in> set (triples (T i j)) \<Longrightarrow> unit_normal t"
  shows "\<forall>t\<in>set (triples (fold (\<lambda>i ts. fold (\<lambda>j ts. ts @ T i j) [0..<n] ts) [0..<m] [])).
     unit_normal t"
proof -
  have "triples (fold (\<lambda>i ts. fold (\<lambda>j ts. ts @ T i j) [0..<n] ts) [0..<m] [])
      = concat (map (\<lambda>i. concat (map (\<lambda>j. triples (T i j)) [0..<n])) [0..<m])"
    by (simp add: fold_push triples_concat dvd_length_concat assms(1))
  with assms(2) show ?thesis by auto
qed

lemma cell_index_bound:
  assumes "i < m" and "j < n"
  shows "i * (n + 1) + j < Suc m * Suc n"
    and "i * (n + 1) + j + n + 1 < Suc m * Suc n"
    and "i * (n + 1) + j + 1 < Suc m * Suc n"
    and "i * (n + 1) + j + n + 1 + 1 < Suc m * Suc n"
proof -
  from assms(1) have "Suc i * Suc n \<le> m * Suc n" by (intro mult_le_mono1) simp
  with assms(2) show "i * (n + 1) + j < Suc m * Suc n"
    and "i * (n + 1) + j + n + 1 < Suc m * Suc n"
    and "i * (n + 1) + j + 1 < Suc m * Suc n"
    and "i * (n + 1) + j + n + 1 + 1 < Suc m * Suc n"
    by simp_all
qed

lemma torus_normal_unit:
  assumes "r \<noteq> 0"
  shows "((R + r * cos v) * cos u - R * cos u) / r * (((R + r * cos v) * cos u - R * cos u) / r)
     + r * sin v / r * (r * sin v / r)
     + ((R + r * cos v) * sin u - R * sin u) / r * (((R + r * cos v) * sin u - R * sin u) / r)
     = (1::real)"
proof -
  have x: "((R + r * cos v) * cos u - R * cos u) / r = cos v * cos u"
    using assms by (simp add: field_simps)
  have z: "((R + r * cos v) * sin u - R * sin u) / r = cos v * sin u"
    using assms by (simp add: field_simps)
  have y: "r * sin v / r = sin v" using assms by simp
  have "cos v * cos u * (cos v * cos u) + sin v * sin v + cos v * sin u * (cos v * sin u)
      = cos v * cos v * (cos u * cos u + sin u * sin u) + sin v * sin v"
    by algebra
  also have "\<dots> = 1"
    unfolding sin_cos_squared_add3 [of u] using sin_cos_squared_add3 [of v] by simp
  finally show ?thesis by (simp only: x y z)
qed

lemma generateTorusNormals_unit:
  assumes "r \<noteq> 0"
  shows "\<forall>t\<in>set (triples (generateTorusNormals R r m n)). unit_normal t"
  unfolding generateTorusNormals_def Let_def
proof (rule grid_cells_unit, goal_cases)
  case (1 i j)
  show ?case by (simp add: dvd_def eval_nat_numeral) presburger
next
  case (2 i j t)
  note b = cell_index_bound [OF 2(1,2)]
  from 2(3) show ?case
    apply (simp only: append_Cons append_Nil triples.simps list.set insert_iff empty_iff
        simp_thms)
    apply (elim disjE)
         apply (hypsubst, rule grid_array_unit, rule torus_normal_unit [OF assms], rule b)+
    done
qed

lemma sphere_normal_unit:
  "- cos t * sin p * (- cos t * sin p) + cos p * cos p + sin t * sin p * (sin t * sin p)
     = (1::real)"
proof -
  have "- cos t * sin p * (- cos t * sin p) + cos p * cos p + sin t * sin p * (sin t * sin p)
      = sin p * sin p * (cos t * cos t + sin t * sin t) + cos p * cos p"
    by algebra
  also have "\<dots> = 1"
    unfolding sin_cos_squared_add3 [of t] using sin_cos_squared_add3 [of p]
    by (simp add: add.commute)
  finally show ?thesis .
qed

lemma triples_if_subset:
  assumes "3 dvd length A"
  shows "set (triples ((if c1 then A else []) @ (if c2 then B else [])))
     \<subseteq> set (triples (A @ B))"
  using assms by (auto simp: triples_append)

lemma generateSphereNormals_unit:
  "\<forall>t\<in>set (triples (generateSphereNormals R m n)). unit_normal t"
  unfolding generateSphereNormals_def Let_def
proof (rule grid_cells_unit, goal_cases)
  case (1 i j)
  show ?case by (simp add: dvd_def eval_nat_numeral) presburger
next
  case (2 i j t)
  note b = cell_index_bound [OF 2(1,2)]
  from 2(3) show ?case
    apply -
    apply (drule subsetD [OF triples_if_subset, rotated])
     apply (simp add: dvd_def eval_nat_numeral)
     apply presburger
    apply (simp only: append_Cons append_Nil triples.simps list.set insert_iff empty_iff
        simp_thms)
    apply (elim disjE; hypsubst, rule grid_array_unit, rule sphere_normal_unit, rule b)+
    done
qed

lemma upt_two: "[0..<2] = [0, Suc 0]"
  by (simp add: numeral_2_eq_2)

lemma ring_array_unit:
  assumes "\<And>i. f i * f i + g i * g i + h i * h i = (1::real)" and "k < H * 2"
  shows "unit_normal
     (nth_opt (fold (\<lambda>i ns. (ns @ [f i, g i, h i]) @ [f i, g i, h i]) [0..<H] []) (k * 3),
      nth_opt (fold (\<lambda>i ns. (ns @ [f i, g i, h i]) @ [f i, g i, h i]) [0..<H] []) (k * 3 + 1),
      nth_opt (fold (\<lambda>i ns. (ns @ [f i, g i, h i]) @ [f i, g i, h i]) [0..<H] []) (k * 3 + 2))"
proof -
  have "fold (\<lambda>i ns. (ns @ [f i, g i, h i]) @ [f i, g i, h i]) [0..<H] []
      = fold (\<lambda>i ns. fold (\<lambda>j ns. ns @ [f i, g i, h i]) [0..<2] ns) [0..<H] []"
    by (simp add: upt_two)
  then show ?thesis
    using grid_array_unit [of "\<lambda>i j. f i" "\<lambda>i j. g i" "\<lambda>i j. h i" k H 2] assms by simp
qed

lemma ring_cells_unit:
  assumes "\<And>i. 3 dvd length (T i)"
    and "\<And>i t. i < n \<Longrightarrow> t \<in> set (triples (T i)) \<Longrightarrow> unit_normal t"
  shows "\<forall>t\<in>set (triples (fold (\<lambda>i ts. ts @ T i) [0..<n] [])). unit_normal t"
proof -
  have "triples (fold (\<lambda>i ts. ts @ T i) [0..<n] []) = concat (map (\<lambda>i. triples (T i)) [0..<n])"
    by (simp add: fold_push triples_concat assms(1))
  with assms(2) show ?thesis by auto
qed

lemma ring_index_bound:
  assumes "i < n"
  shows "i * 2 < Suc n * 2" and "i * 2 + 1 < Suc n * 2"
    and "(i + 1) mod n * 2 < Suc n * 2" and "(i + 1) mod n * 2 + 1 < Suc n * 2"
proof -
  define c where "c = (i + 1) mod n"
  from assms have "c < n" by (simp add: c_def)
  then have "c * 2 < Suc n * 2" and "c * 2 + 1 < Suc n * 2" by simp_all
  then show "(i + 1) mod n * 2 < Suc n * 2" and "(i + 1) mod n * 2 + 1 < Suc n * 2"
    by (simp_all only: c_def)
  from assms show "i * 2 < Suc n * 2" and "i * 2 + 1 < Suc n * 2" by simp_all
qed

lemma cylinder_normal_unit: "cos t * cos t + 0 * 0 + sin t * sin t = (1::real)"
  using sin_cos_squared_add3 [of t] by simp

lemma generateCylinderNormals_unit:
  "\<forall>t\<in>set (triples (generateCylinderNormals R h n)). unit_normal t"
  unfolding generateCylinderNormals_def Let_def
proof (rule ring_cells_unit, goal_cases)
  case (1 i)
  show ?case by (simp add: dvd_def eval_nat_numeral) presburger
next
  case (2 i t)
  note b = ring_index_bound [OF 2(1)]
  from 2(2) show ?case
    apply (simp only: append_Cons append_Nil triples.simps list.set insert_iff empty_iff
        simp_thms)
    apply (elim disjE; hypsubst, rule ring_array_unit, rule cylinder_normal_unit, rule b)+
    done
qed

text \<open>In exact real arithmetic every normal that the sphere, cylinder and torus generators
  emit with the parameters of \<open>getGeometryNormals\<close> is read from inside the array of grid
  normals and is a unit vector. The rounding of the floating-point operations of the source
  is outside this model.\<close>

lemma curved_normals_unit_exact:
  assumes "toLowerCase t \<in> {''sphere'', ''cylinder'', ''torus''}"
  shows "\<forall>v\<in>set (triples (getGeometryNormals t)). unit_normal v"
proof -
  have "\<forall>v\<in>set (triples (generateTorusNormals 0.6 0.3 16 16)). unit_normal v"
    by (rule generateTorusNormals_unit) simp
  with assms generateSphereNormals_unit [of 1 20 20] generateCylinderNormals_unit [of 1 2 16]
  show ?thesis
    by (auto simp: getGeometryNormals_def Let_def)
qed

section \<open>Facts about the render pipeline\<close>

lemma createShader_result:
  assumes "wf_gl g"
  shows "createShader h t src g =
     (if \<not> shader_alloc_ok h then (Inr None, g)
      else if \<not> compiles h t src
      then (Inl (ShaderCompilationError (info_log h)), g\<lparr>next_handle := Suc (next_handle g)\<rparr>)
      else (Inr (Some (next_handle g)),
            g\<lparr>next_handle := Suc (next_handle g),
              live_shaders := next_handle g # live_shaders g\<rparr>))"
proof -
  from assms have "next_handle g \<notin> set (live_shaders g)"
    by (auto simp: wf_gl_def)
  then show ?thesis
    by (simp add: createShader_def create_handle_def Let_def)
qed

lemma createProgram_result:
  assumes "wf_gl g"
  shows "createProgram h vs fs g =
     (if \<not> program_alloc_ok h then (Inr None, g)
      else if \<not> links h vs fs
      then (Inl (ProgramLinkingError (info_log h)), g\<lparr>next_handle := Suc (next_handle g)\<rparr>)
      else (Inr (Some (next_handle g)),
            g\<lparr>next_handle := Suc (next_handle g),
              live_programs := next_handle g # live_programs g\<rparr>))"
proof -
  from assms have "next_handle g \<notin> set (live_programs g)"
    by (auto simp: wf_gl_def)
  then show ?thesis
    by (simp add: createProgram_def create_handle_def Let_def)
qed

lemma setupGeometry_result:
  "setupGeometry t s =
     s\<lparr>vertexCountRef := length (getGeometryVertices t) div 3,
       gl := (gl s)\<lparr>next_handle := Suc (Suc (next_handle (gl s))),
                   live_buffers := Suc (next_handle (gl s)) # next_handle (gl s)
                     # live_buffers (gl s)\<rparr>\<rparr>"
  by (simp add: setupGeometry_def create_handle_def Let_def)

lemma wf_gl_alloc:
  "wf_gl g \<Longrightarrow> wf_gl (g\<lparr>next_handle := Suc (next_handle g)\<rparr>)"
  "wf_gl g \<Longrightarrow> wf_gl (g\<lparr>next_handle := Suc (next_handle g),
      live_shaders := next_handle g # live_shaders g\<rparr>)"
  "wf_gl g \<Longrightarrow> wf_gl (g\<lparr>next_handle := Suc (next_handle g),
      live_programs := next_handle g # live_programs g\<rparr>)"
  by (auto simp: wf_gl_def less_Suc_eq)

lemma animate_handles:
  "next_handle (gl (animate h s)) = next_handle (gl s)"
  "live_shaders (gl (animate h s)) = live_shaders (gl s)"
  "live_programs (gl (animate h s)) = live_programs (gl s)"
  "live_buffers (gl (animate h s)) = live_buffers (gl s)"
  "programRef (animate h s) = programRef s"
  by (simp_all add: animate_def Let_def split: option.splits)

text \<open>The outcomes of \<open>renderShader\<close> on a well-formed context, one line per exit.\<close>

lemma renderShader_result:
  assumes "wf_gl (gl s)"
  shows "renderShader h code s =
     (if \<not> has_canvas h \<or> \<not> has_webgl h then (Inr (), s)
      else case split_bundle code of
        Inl e \<Rightarrow> (Inl e, s\<lparr>glRef := True\<rparr>)
      | Inr b \<Rightarrow>
         (let n = next_handle (gl s) in
          if \<not> shader_alloc_ok h
          then (Inl FailedToCompileShaders, s\<lparr>glRef := True, gl := gl s\<rparr>)
          else if \<not> compiles h VERTEX_SHADER (vertexSrc b)
          then (Inl (ShaderCompilationError (info_log h)),
                s\<lparr>glRef := True, gl := (gl s)\<lparr>next_handle := Suc n\<rparr>\<rparr>)
          else if \<not> compiles h FRAGMENT_SHADER (fixShaderIssues (fragmentSrc b))
          then (Inl (ShaderCompilationError (info_log h)),
                s\<lparr>glRef := True,
                  gl := (gl s)\<lparr>next_handle := Suc (Suc n),
                              live_shaders := n # live_shaders (gl s)\<rparr>\<rparr>)
          else if \<not> program_alloc_ok h
          then (Inl FailedToCreateProgram,
                s\<lparr>glRef := True,
                  gl := (gl s)\<lparr>next_handle := Suc (Suc n),
                              live_shaders := Suc n # n # live_shaders (gl s)\<rparr>\<rparr>)
          else if \<not> links h n (Suc n)
          then (Inl (ProgramLinkingError (info_log h)),
                s\<lparr>glRef := True,
                  gl := (gl s)\<lparr>next_handle := Suc (Suc (Suc n)),
                              live_shaders := Suc n # n # live_shaders (gl s)\<rparr>\<rparr>)
          else (Inr (),
                animate h
                  (s\<lparr>glRef := True,
                     programRef := Some (Suc (Suc n)),
                     vertexCountRef := length (getGeometryVertices (geometryName b)) div 3,
                     gl := (gl s)\<lparr>live_shaders := Suc n # n # live_shaders (gl s),
                                 live_programs := Suc (Suc n) # live_programs (gl s),
                                 next_handle := Suc (Suc (Suc (Suc (Suc n)))),
                                 live_buffers := Suc (Suc (Suc (Suc n))) # Suc (Suc (Suc n))
                                   # live_buffers (gl s)\<rparr>,
                     startTimeRef := now h\<rparr>))))"
proof -
  let ?n = "next_handle (gl s)"
  let ?g1 = "(gl s)\<lparr>next_handle := Suc ?n, live_shaders := ?n # live_shaders (gl s)\<rparr>"
  let ?g2 = "(gl s)\<lparr>next_handle := Suc (Suc ?n),
      live_shaders := Suc ?n # ?n # live_shaders (gl s)\<rparr>"
  have w1: "wf_gl ?g1" using assms by (rule wf_gl_alloc(2))
  from wf_gl_alloc(2) [OF w1] have w2: "wf_gl ?g2" by simp
  show ?thesis
    unfolding renderShader_def Let_def
    by (simp add: createShader_result [OF assms] createShader_result [OF w1]
          createProgram_result [OF w2] setupGeometry_result
          split: sum.splits)
qed

lemma wf_initial_view: "wf_gl (gl initial_view)"
  by (simp add: wf_gl_def initial_view_def)

lemma split_bundle_ok:
  "split_bundle bundle_ok
     = Inr \<lparr>vertexSrc = ''void main() {}'', fragmentSrc = ''void main() {}'',
            geometryName = ''cube''\<rparr>"
  by code_simp

lemma cube_vertex_count: "length (getGeometryVertices ''cube'') div 3 = 36"
proof -
  have "toLowerCase ''cube'' = ''cube''" by code_simp
  then show ?thesis by (simp add: length_getGeometryVertices)
qed

lemma view_after_first_eq:
  "view_after_first =
     \<lparr>gl = \<lparr>next_handle = 6, live_shaders = [2, 1], live_programs = [3],
              live_buffers = [5, 4], draw_calls = [(3, 36)]\<rparr>,
      glRef = True, programRef = Some 3, animationRef = 1, startTimeRef = 1000,
      vertexCountRef = 36, next_request = 2, pending_frames = [1]\<rparr>"
  unfolding view_after_first_def renderShader_result [OF wf_initial_view]
  by (simp add: split_bundle_ok cube_vertex_count host_ok_def animate_def initial_view_def
        Let_def)

lemma wf_view_after_first: "wf_gl (gl view_after_first)"
  by (simp add: view_after_first_eq wf_gl_def)

lemma view_after_second_eq:
  "view_after_second =
     \<lparr>gl = \<lparr>next_handle = 11, live_shaders = [7, 6, 2, 1], live_programs = [8, 3],
              live_buffers = [10, 9, 5, 4], draw_calls = [(3, 36), (8, 36)]\<rparr>,
      glRef = True, programRef = Some 8, animationRef = 2, startTimeRef = 1000,
      vertexCountRef = 36, next_request = 3, pending_frames = [1, 2]\<rparr>"
  unfolding view_after_second_def renderShader_result [OF wf_view_after_first]
  by (simp add: split_bundle_ok cube_vertex_count host_ok_def animate_def view_after_first_eq
        Let_def)

lemma wf_gl_grow:
  assumes "wf_gl g" and "next_handle g \<le> next_handle g'"
    and "set (live_shaders g') \<subseteq> set (live_shaders g) \<union> {next_handle g..<next_handle g'}"
    and "set (live_programs g') \<subseteq> set (live_programs g) \<union> {next_handle g..<next_handle g'}"
    and "set (live_buffers g') \<subseteq> set (live_buffers g) \<union> {next_handle g..<next_handle g'}"
  shows "wf_gl g'"
proof -
  have "x < next_handle g'"
    if "x \<in> set (live_shaders g) \<union> set (live_programs g) \<union> set (live_buffers g)
          \<union> {next_handle g..<next_handle g'}" for x
  proof (cases "x \<in> {next_handle g..<next_handle g'}")
    case True
    then show ?thesis by simp
  next
    case False
    with that have "x \<in> set (live_shaders g @ live_programs g @ live_buffers g)" by auto
    with assms(1) have "x < next_handle g" unfolding wf_gl_def by blast
    with assms(2) show ?thesis by simp
  qed
  with assms(3,4,5) show ?thesis unfolding wf_gl_def by (simp add: subset_iff) blast
qed

lemma split_bundle_error:
  "split_bundle code = Inl e \<Longrightarrow> e = MissingVertexOrFragmentMarker \<or> e = MissingFragmentMarker"
  by (auto simp: split_bundle_def extractVertexShader_def extractFragmentShader_def
        split: option.splits sum.splits)

section \<open>Results on splitting the bundle\<close>

text \<open>
  Claim C6. Parsing the bundle fails if and only if at least one of the two section markers
  does not occur in the text; every failure of the parse is a missing-marker error; and when
  both markers occur, both extractions return a source text.
\<close>

theorem split_bundle_fails_iff_marker_absent:
  "((\<exists>e. split_bundle code = Inl e) \<longleftrightarrow>
      (\<not> occurs vertex_marker code \<or> \<not> occurs fragment_marker code))
   \<and> (\<forall>e. split_bundle code = Inl e \<longrightarrow> is_missing_marker e)
   \<and> (occurs vertex_marker code \<and> occurs fragment_marker code \<longrightarrow>
        (\<exists>b. split_bundle code = Inr b
             \<and> extractVertexShader code = Inr (vertexSrc b)
             \<and> extractFragmentShader code = Inr (fragmentSrc b)))"
  by (auto simp: occurs_iff_indexOf split_bundle_def extractVertexShader_def
           extractFragmentShader_def split: option.splits sum.splits)

theorem split_bundle_fails_iff_marker_absent_witness:
  "occurs vertex_marker bundle_ok \<and> occurs fragment_marker bundle_ok
   \<and> (\<exists>b. split_bundle bundle_ok = Inr b)
   \<and> \<not> occurs fragment_marker bundle_no_fragment
   \<and> (\<exists>e. split_bundle bundle_no_fragment = Inl e \<and> is_missing_marker e)"
proof -
  have v: "occurs vertex_marker bundle_ok"
    unfolding str_includes_iff_occurs [symmetric]
    by (simp add: str_includes_def bundle_ok_def vertex_marker_def)
  have f: "occurs fragment_marker bundle_ok"
    unfolding str_includes_iff_occurs [symmetric]
    by (simp add: str_includes_def bundle_ok_def fragment_marker_def newline_def)
  have n: "\<not> occurs fragment_marker bundle_no_fragment"
    unfolding str_includes_iff_occurs [symmetric]
    by (simp add: str_includes_def bundle_no_fragment_def fragment_marker_def newline_def)
  from v f split_bundle_fails_iff_marker_absent [of bundle_ok]
  have ok: "\<exists>b. split_bundle bundle_ok = Inr b" by blast
  from n split_bundle_fails_iff_marker_absent [of bundle_no_fragment]
  have "\<exists>e. split_bundle bundle_no_fragment = Inl e \<and> is_missing_marker e" by blast
  with v f n ok show ?thesis by blast
qed

text \<open>
  Claim C10. When both markers occur and the fragment marker comes first, no parse failure is
  reported: \<open>substring\<close> swaps its arguments, so the vertex source is the trimmed text
  from the fragment marker's position up to the vertex marker's position (removing the vertex
  marker finds nothing to remove there), and the fragment source is the trimmed text after
  the fragment marker, the vertex marker and the vertex section included.
\<close>

theorem out_of_order_bundle_accepted:
  assumes "indexOf code vertex_marker = Some v"
    and "indexOf code fragment_marker = Some f"
    and "f < v"
  shows "extractVertexShader code = Inr (trim (take (v - f) (drop f code)))
    \<and> extractFragmentShader code = Inr (trim (drop (f + length fragment_marker) code))
    \<and> split_bundle code =
        Inr \<lparr>vertexSrc = trim (take (v - f) (drop f code)),
             fragmentSrc = trim (drop (f + length fragment_marker) code),
             geometryName = extractGeometryType code\<rparr>"
proof -
  have sub: "substring code v f = take (v - f) (drop f code)"
    using assms(3) by (simp add: substring_def Let_def min_def max_def)
  have "\<not> occurs vertex_marker (take v code)"
    using not_occurs_before_indexOf [OF assms(1)] by (simp add: vertex_marker_def)
  moreover have "take (v - f) (drop f code) = drop f (take v code)"
    by (simp add: drop_take)
  ultimately have "\<not> occurs vertex_marker (take (v - f) (drop f code))"
    using occurs_drop by metis
  then have "indexOf (take (v - f) (drop f code)) vertex_marker = None"
    by (simp add: indexOf_None_iff)
  then have vs: "replace_str (substring code v f) vertex_marker [] = take (v - f) (drop f code)"
    by (simp add: sub replace_str_def)
  have ev: "extractVertexShader code = Inr (trim (take (v - f) (drop f code)))"
    by (simp add: extractVertexShader_def assms(1,2) vs)
  from indexOf_Some_prefix [OF assms(2)] have "prefix fragment_marker (drop f code)" by simp
  then have "indexOf (drop f code) fragment_marker = Some 0" by (rule indexOf_prefix_0)
  then have "replace_str (substring_from code f) fragment_marker []
      = drop (f + length fragment_marker) code"
    by (simp add: replace_str_def substring_from_def add.commute)
  then have ef: "extractFragmentShader code
      = Inr (trim (drop (f + length fragment_marker) code))"
    by (simp add: extractFragmentShader_def assms(2))
  from ev ef show ?thesis by (simp add: split_bundle_def)
qed

theorem out_of_order_bundle_accepted_witness:
  "indexOf bundle_swapped vertex_marker = Some 21
   \<and> indexOf bundle_swapped fragment_marker = Some 0
   \<and> extractVertexShader bundle_swapped = Inr (''// Fragment Shader'' @ [newline] @ ''F'')
   \<and> extractFragmentShader bundle_swapped
       = Inr (''F'' @ [newline] @ ''// Vertex Shader'' @ [newline] @ ''V'')"
proof -
  have v: "indexOf bundle_swapped vertex_marker = Some 21"
    by (simp add: bundle_swapped_def vertex_marker_def newline_def)
  have f: "indexOf bundle_swapped fragment_marker = Some 0"
    by (simp add: bundle_swapped_def fragment_marker_def)
  have lt: "(0::nat) < 21" by simp
  from out_of_order_bundle_accepted [OF v f lt]
  show ?thesis
    using v f
    by (simp add: bundle_swapped_def fragment_marker_def trim_def is_space_def newline_def)
qed

section \<open>Results on the repair of the fragment source\<close>

text \<open>
  Claim C3, as stated: the repair is idempotent on every input. It is not: on a text that
  consists of a precision statement whose middle word mentions a recognized identifier,
  the first run ends with a line break that the second run trims away; and on a text whose
  first precision statement runs over two lines, the first run puts the declarations inside
  that statement, so that the second run finds and moves the next statement.
\<close>

theorem repair_not_idempotent:
  "fixShaderIssues (fixShaderIssues src_precision_only) \<noteq> fixShaderIssues src_precision_only
   \<and> fixShaderIssues (fixShaderIssues src_two_statements)
       \<noteq> fixShaderIssues src_two_statements"
  by code_simp

text \<open>
  Claim C3, amended. The repair is idempotent on every input whose trimmed text does not
  contain \<open>precision\<close>, and on every input whose precision statement, as the pattern
  finds it in the trimmed text, has no line break inside and leaves some text other than
  white space besides it.
\<close>

theorem repair_idempotent_regular:
  "(\<not> str_includes (trim x) ''precision'' \<longrightarrow>
      fixShaderIssues (fixShaderIssues x) = fixShaderIssues x)
   \<and> (\<forall>i n. precision_match (trim x) = Some (i, n)
          \<and> newline \<notin> set (take n (drop i (trim x)))
          \<and> trim (take i (trim x) @ drop (i + n) (trim x)) \<noteq> []
        \<longrightarrow> fixShaderIssues (fixShaderIssues x) = fixShaderIssues x)"
proof (intro conjI impI allI)
  assume a: "\<not> str_includes (trim x) ''precision''"
  show "fixShaderIssues (fixShaderIssues x) = fixShaderIssues x"
  proof (cases "trim x = []")
    case True
    have "declaration_block (default_precision @ [newline]) = []" by code_simp
    with True have e: "fixShaderIssues x = default_precision @ [newline]"
      using fixShaderIssues_default_shape [OF a] by simp
    have "fixShaderIssues (default_precision @ [newline]) = default_precision @ [newline]"
      by code_simp
    with e show ?thesis by simp
  next
    case False
    have at: "precision_match_at default_precision = Some (length default_precision)"
      using default_precision_match [of "[]"] by (simp add: default_precision_def)
    have nl: "newline \<notin> set default_precision"
      by (simp add: default_precision_def newline_def)
    show ?thesis
      unfolding fixShaderIssues_default_shape [OF a]
      using at nl trim_idem False by (rule fixShaderIssues_stable)
  qed
next
  fix i n
  assume "precision_match (trim x) = Some (i, n)
          \<and> newline \<notin> set (take n (drop i (trim x)))
          \<and> trim (take i (trim x) @ drop (i + n) (trim x)) \<noteq> []"
  then have pm: "precision_match (trim x) = Some (i, n)"
    and nl: "newline \<notin> set (take n (drop i (trim x)))"
    and ne: "trim (take i (trim x) @ drop (i + n) (trim x)) \<noteq> []" by simp_all
  from precision_match_SomeD [OF pm]
  have at: "precision_match_at (drop i (trim x)) = Some n" by simp
  from precision_match_at_take(1) [OF at, of "[]"] precision_match_at_take(4) [OF at]
  have at': "precision_match_at (take n (drop i (trim x)))
      = Some (length (take n (drop i (trim x))))" by simp
  show "fixShaderIssues (fixShaderIssues x) = fixShaderIssues x"
    unfolding fixShaderIssues_found_shape [OF pm nl]
    using at' nl trim_idem ne by (rule fixShaderIssues_stable)
qed

theorem repair_idempotent_regular_witness:
  "\<not> str_includes (trim src_plain) ''precision''
   \<and> fixShaderIssues (fixShaderIssues src_plain) = fixShaderIssues src_plain
   \<and> precision_match (trim src_late_precision) = Some (20, 22)
   \<and> newline \<notin> set (take 22 (drop 20 (trim src_late_precision)))
   \<and> trim (take 20 (trim src_late_precision) @ drop (20 + 22) (trim src_late_precision)) \<noteq> []
   \<and> fixShaderIssues (fixShaderIssues src_late_precision) = fixShaderIssues src_late_precision"
proof -
  have h1: "\<not> str_includes (trim src_plain) ''precision''" by code_simp
  have h2: "precision_match (trim src_late_precision) = Some (20, 22)" by code_simp
  have h3: "newline \<notin> set (take 22 (drop 20 (trim src_late_precision)))" by code_simp
  have h4: "trim (take 20 (trim src_late_precision) @ drop (20 + 22) (trim src_late_precision))
      \<noteq> []" by code_simp
  from repair_idempotent_regular [of src_plain] h1
  have c1: "fixShaderIssues (fixShaderIssues src_plain) = fixShaderIssues src_plain" by blast
  from repair_idempotent_regular [of src_late_precision] h2 h3 h4
  have c2: "fixShaderIssues (fixShaderIssues src_late_precision)
      = fixShaderIssues src_late_precision" by blast
  from h1 h2 h3 h4 c1 c2 show ?thesis by blast
qed

text \<open>
  Claim C4, as stated: an existing precision statement is never removed, and a source with
  a precision statement at the top and every needed declaration is returned unchanged. The
  second part fails when a blank line follows the statement: the text after the statement
  is trimmed and put back after a single line break. The first part fails when the
  statement runs over two lines: the declarations are inserted after its first line, and
  no precision statement is left in the output.
\<close>

theorem repair_changes_wellformed_source:
  "precision_match src_blank_line = Some (0, 24)
   \<and> needed_declarations src_blank_line = []
   \<and> fixShaderIssues src_blank_line \<noteq> src_blank_line
   \<and> precision_match src_multiline = Some (0, 24)
   \<and> precision_match (fixShaderIssues src_multiline) = None"
  by code_simp

text \<open>
  Claim C4, amended. A precision statement that the pattern finds and that has no line
  break inside is kept: it is the head of the repaired text. A source that starts with its
  precision statement, goes on with exactly one line break and then with text that has no
  white space at its ends, and needs no declaration, is returned unchanged.
\<close>

theorem repair_keeps_precision_statement:
  "(\<forall>i n. precision_match (trim x) = Some (i, n)
        \<and> newline \<notin> set (take n (drop i (trim x)))
      \<longrightarrow> prefix (take n (drop i (trim x))) (fixShaderIssues x))
   \<and> (\<forall>n r. precision_match x = Some (0, n) \<and> drop n x = newline # r
        \<and> r \<noteq> [] \<and> trim r = r \<and> needed_declarations x = []
      \<longrightarrow> fixShaderIssues x = x)"
proof (intro conjI impI allI)
  fix i n
  assume "precision_match (trim x) = Some (i, n)
        \<and> newline \<notin> set (take n (drop i (trim x)))"
  then have pm: "precision_match (trim x) = Some (i, n)"
    and nl: "newline \<notin> set (take n (drop i (trim x)))" by simp_all
  show "prefix (take n (drop i (trim x))) (fixShaderIssues x)"
    unfolding fixShaderIssues_found_shape [OF pm nl] by simp
next
  fix n r
  assume "precision_match x = Some (0, n) \<and> drop n x = newline # r
        \<and> r \<noteq> [] \<and> trim r = r \<and> needed_declarations x = []"
  then have pm: "precision_match x = Some (0, n)" and d: "drop n x = newline # r"
    and r: "trim r = r" "r \<noteq> []" and nd: "needed_declarations x = []" by simp_all
  from precision_match_SomeD [OF pm] have at: "precision_match_at x = Some n" by simp
  have x: "x = take n x @ newline # [] @ r" using d by (metis append_take_drop_id append_Nil)
  have "trim (take n x @ newline # [] @ r) = take n x @ newline # [] @ r"
    using precision_match_at_take(3) [OF at] r by (rule trim_statement_body)
  with x have tx: "trim x = x" by simp
  from pm have pm': "precision_match (trim x) = Some (0, n)" by (simp add: tx)
  have "trim (newline # r) = trim ([newline] @ r)" by simp
  also have "\<dots> = trim r" by (rule trim_spaces_append) (simp add: is_space_def newline_def)
  finally have tr: "trim (newline # r) = r" using r(1) by simp
  have "ensure_precision x = take n x @ newline # r"
    using ensure_precision_found [OF pm'] by (simp add: tx d tr)
  with x have ep: "ensure_precision x = x" by simp
  from nd have "declaration_block x = []" by (simp add: declaration_block_def)
  then have "insert_declarations x = x" by (simp add: insert_declarations_alt)
  with ep show "fixShaderIssues x = x" by (simp add: fixShaderIssues_def)
qed

theorem repair_keeps_precision_statement_witness:
  "precision_match (trim src_late_precision) = Some (20, 22)
   \<and> newline \<notin> set (take 22 (drop 20 (trim src_late_precision)))
   \<and> prefix ''precision highp float;'' (fixShaderIssues src_late_precision)
   \<and> precision_match src_wellformed = Some (0, 22)
   \<and> drop 22 src_wellformed = newline # drop 23 src_wellformed
   \<and> drop 23 src_wellformed \<noteq> []
   \<and> trim (drop 23 src_wellformed) = drop 23 src_wellformed
   \<and> needed_declarations src_wellformed = []
   \<and> fixShaderIssues src_wellformed = src_wellformed"
proof -
  have h1: "precision_match (trim src_late_precision) = Some (20, 22)" by code_simp
  have h2: "newline \<notin> set (take 22 (drop 20 (trim src_late_precision)))" by code_simp
  have h3: "take 22 (drop 20 (trim src_late_precision)) = ''precision highp float;''"
    by code_simp
  have g1: "precision_match src_wellformed = Some (0, 22)" by code_simp
  have g2: "drop 22 src_wellformed = newline # drop 23 src_wellformed" by code_simp
  have g3: "drop 23 src_wellformed \<noteq> []" by code_simp
  have g4: "trim (drop 23 src_wellformed) = drop 23 src_wellformed" by code_simp
  have g5: "needed_declarations src_wellformed = []" by code_simp
  from repair_keeps_precision_statement [of src_late_precision] h1 h2
  have "prefix (take 22 (drop 20 (trim src_late_precision))) (fixShaderIssues src_late_precision)"
    by blast
  then have c1: "prefix ''precision highp float;'' (fixShaderIssues src_late_precision)"
    by (simp only: h3)
  from repair_keeps_precision_statement [of src_wellformed] g1 g2 g3 g4 g5
  have c2: "fixShaderIssues src_wellformed = src_wellformed" by blast
  from h1 h2 c1 g1 g2 g3 g4 g5 c2 show ?thesis by blast
qed

text \<open>
  Claim C5. On every input the repaired text should begin with a precision statement,
  followed by the block of missing declarations. The code does not do this on two kinds of
  input, against its own comments (\<open>Always ensure precision is at the very beginning\<close>,
  \<open>This shouldn't happen since we ensure precision exists\<close>). When the word
  \<open>precision\<close> occurs outside a statement of the pattern's shape, here in a comment, the
  text comes back as it was, with no precision statement in it. When the statement runs
  over two lines, the declaration becomes the second line of the output, inside the
  statement.
\<close>

theorem repair_without_precision_statement:
  "fixShaderIssues src_comment_only = src_comment_only
   \<and> precision_match (fixShaderIssues src_comment_only) = None
   \<and> split_nl (fixShaderIssues src_multiline)
       = [''precision'', ''uniform float time;'', ''mediump float;'',
          ''void main() { gl_FragColor = vec4(time); }'']"
  by code_simp

text \<open>
  On the regular inputs the repair does build that shape. When the trimmed input does not
  contain \<open>precision\<close>, or has a precision statement of the pattern's shape with no line
  break inside, the repaired text is: the precision statement (the default one, or the one
  found), one line break, the block of the declarations that the text needs, each on its
  own line and in the order time, resolution, vNormal, vPosition, and then the rest of the
  trimmed input.
\<close>

lemma repair_output_shape:
  "(\<not> str_includes (trim x) ''precision'' \<longrightarrow>
      fixShaderIssues x = default_precision @ newline
        # declaration_block (default_precision @ newline # trim x) @ trim x
      \<and> precision_match_at (fixShaderIssues x) = Some (length default_precision))
   \<and> (\<forall>i n. precision_match (trim x) = Some (i, n)
          \<and> newline \<notin> set (take n (drop i (trim x)))
        \<longrightarrow> fixShaderIssues x = take n (drop i (trim x)) @ newline
              # declaration_block (take n (drop i (trim x)) @ newline
                   # trim (take i (trim x) @ drop (i + n) (trim x)))
                @ trim (take i (trim x) @ drop (i + n) (trim x))
            \<and> precision_match_at (fixShaderIssues x) = Some n)
   \<and> (\<forall>f. declaration_block f = concat (map (\<lambda>d. d @ [newline]) (needed_declarations f))
        \<and> subseq (needed_declarations f)
             [''uniform float time;'', ''uniform vec2 resolution;'',
              ''varying vec3 vNormal;'', ''varying vec3 vPosition;'']
        \<and> (\<forall>ident decl. (ident, decl) \<in> set declaration_table \<longrightarrow>
             (decl @ '';'' \<in> set (needed_declarations f)
                \<longleftrightarrow> occurs ident f \<and> \<not> occurs decl f)))
   \<and> ((\<not> str_includes (trim x) ''precision''
        \<or> (\<exists>i n. precision_match (trim x) = Some (i, n)
               \<and> newline \<notin> set (take n (drop i (trim x)))))
      \<longrightarrow> needed_declarations (fixShaderIssues x) = [])"
proof (intro conjI impI allI)
  assume a: "\<not> str_includes (trim x) ''precision''"
  show "fixShaderIssues x = default_precision @ newline
        # declaration_block (default_precision @ newline # trim x) @ trim x"
    using a by (rule fixShaderIssues_default_shape)
  show "precision_match_at (fixShaderIssues x) = Some (length default_precision)"
    unfolding fixShaderIssues_default_shape [OF a]
    using default_precision_match by (simp add: default_precision_def)
next
  fix i n
  assume "precision_match (trim x) = Some (i, n)
          \<and> newline \<notin> set (take n (drop i (trim x)))"
  then have pm: "precision_match (trim x) = Some (i, n)"
    and nl: "newline \<notin> set (take n (drop i (trim x)))" by simp_all
  from precision_match_SomeD [OF pm]
  have at: "precision_match_at (drop i (trim x)) = Some n" by simp
  show "fixShaderIssues x = take n (drop i (trim x)) @ newline
              # declaration_block (take n (drop i (trim x)) @ newline
                   # trim (take i (trim x) @ drop (i + n) (trim x)))
                @ trim (take i (trim x) @ drop (i + n) (trim x))"
    using pm nl by (rule fixShaderIssues_found_shape)
  show "precision_match_at (fixShaderIssues x) = Some n"
    unfolding fixShaderIssues_found_shape [OF pm nl]
    using precision_match_at_take(1) [OF at] by simp
next
  fix f
  show "declaration_block f = concat (map (\<lambda>d. d @ [newline]) (needed_declarations f))"
    by (rule declaration_block_def)
  show "subseq (needed_declarations f)
             [''uniform float time;'', ''uniform vec2 resolution;'',
              ''varying vec3 vNormal;'', ''varying vec3 vPosition;'']"
    by (simp add: needed_declarations_def declaration_table_def)
next
  fix f ident decl
  assume "(ident, decl) \<in> set declaration_table"
  then show "decl @ '';'' \<in> set (needed_declarations f)
                \<longleftrightarrow> occurs ident f \<and> \<not> occurs decl f"
    unfolding str_includes_iff_occurs [symmetric]
    by (auto simp: needed_declarations_def declaration_table_def)
next
  assume "\<not> str_includes (trim x) ''precision''
        \<or> (\<exists>i n. precision_match (trim x) = Some (i, n)
               \<and> newline \<notin> set (take n (drop i (trim x))))"
  then show "needed_declarations (fixShaderIssues x) = []"
  proof
    assume a: "\<not> str_includes (trim x) ''precision''"
    show ?thesis
      unfolding fixShaderIssues_default_shape [OF a]
      by (rule needed_declarations_after_insertion)
  next
    assume "\<exists>i n. precision_match (trim x) = Some (i, n)
               \<and> newline \<notin> set (take n (drop i (trim x)))"
    then obtain i n where pm: "precision_match (trim x) = Some (i, n)"
      and nl: "newline \<notin> set (take n (drop i (trim x)))" by blast
    show ?thesis
      unfolding fixShaderIssues_found_shape [OF pm nl]
      by (rule needed_declarations_after_insertion)
  qed
qed

lemma repair_output_shape_example:
  "\<not> str_includes (trim src_plain) ''precision''
   \<and> fixShaderIssues src_plain
       = ''precision mediump float;'' @ [newline] @ ''uniform float time;'' @ [newline]
         @ ''varying vec3 vNormal;'' @ [newline] @ src_plain
   \<and> precision_match (trim src_late_precision) = Some (20, 22)
   \<and> newline \<notin> set (take 22 (drop 20 (trim src_late_precision)))
   \<and> fixShaderIssues src_late_precision
       = ''precision highp float;'' @ [newline] @ ''varying vec3 vNormal;'' @ [newline]
         @ ''uniform float time;'' @ [newline, newline]
         @ ''void main() { gl_FragColor = vec4(time, vNormal); }''
   \<and> needed_declarations (fixShaderIssues src_late_precision) = []"
proof -
  have h1: "\<not> str_includes (trim src_plain) ''precision''" by code_simp
  have h2: "precision_match (trim src_late_precision) = Some (20, 22)" by code_simp
  have h3: "newline \<notin> set (take 22 (drop 20 (trim src_late_precision)))" by code_simp
  have v1: "default_precision @ newline
        # declaration_block (default_precision @ newline # trim src_plain) @ trim src_plain
      = ''precision mediump float;'' @ [newline] @ ''uniform float time;'' @ [newline]
         @ ''varying vec3 vNormal;'' @ [newline] @ src_plain" by code_simp
  have v2: "take 22 (drop 20 (trim src_late_precision)) @ newline
      # declaration_block (take 22 (drop 20 (trim src_late_precision)) @ newline
           # trim (take 20 (trim src_late_precision) @ drop (20 + 22) (trim src_late_precision)))
        @ trim (take 20 (trim src_late_precision) @ drop (20 + 22) (trim src_late_precision))
      = ''precision highp float;'' @ [newline] @ ''varying vec3 vNormal;'' @ [newline]
         @ ''uniform float time;'' @ [newline, newline]
         @ ''void main() { gl_FragColor = vec4(time, vNormal); }''" by code_simp
  from repair_output_shape [of src_plain] h1
  have c1: "fixShaderIssues src_plain = default_precision @ newline
        # declaration_block (default_precision @ newline # trim src_plain) @ trim src_plain"
    by blast
  from repair_output_shape [of src_late_precision] h2 h3
  have c2: "fixShaderIssues src_late_precision
      = take 22 (drop 20 (trim src_late_precision)) @ newline
      # declaration_block (take 22 (drop 20 (trim src_late_precision)) @ newline
           # trim (take 20 (trim src_late_precision) @ drop (20 + 22) (trim src_late_precision)))
        @ trim (take 20 (trim src_late_precision) @ drop (20 + 22) (trim src_late_precision))"
    by blast
  from repair_output_shape [of src_late_precision] h2 h3
  have c3: "needed_declarations (fixShaderIssues src_late_precision) = []" by blast
  from h1 h2 h3 c1 c2 c3 show ?thesis by (simp only: v1 v2 simp_thms)
qed

section \<open>Results on the geometry generators\<close>

text \<open>
  Claim C7. For every geometry name, and so for each of the five variants, the vertex and
  normal arrays have the same length, that length is a multiple of 3 (whole vertices) and
  the number of vertices is a positive multiple of 3 (whole triangles).
\<close>

theorem geometry_buffers_are_triangle_lists:
  "length (getGeometryVertices t) = length (getGeometryNormals t)
   \<and> 3 dvd length (getGeometryVertices t)
   \<and> 0 < length (getGeometryVertices t) div 3
   \<and> 3 dvd length (getGeometryVertices t) div 3
   \<and> 0 < length (getGeometryNormals t) div 3
   \<and> 3 dvd length (getGeometryNormals t) div 3"
  unfolding length_getGeometryVertices length_getGeometryNormals
  by (simp add: Let_def)

theorem geometry_buffers_are_triangle_lists_witness:
  "length (getGeometryVertices ''Torus'') = length (getGeometryNormals ''Torus'')
   \<and> 3 dvd length (getGeometryVertices ''Torus'')
   \<and> 3 dvd length (getGeometryVertices ''Torus'') div 3
   \<and> length (getGeometryVertices ''Torus'') div 3 = 1536
   \<and> length (getGeometryVertices ''sphere'') div 3 = 2280
   \<and> length (getGeometryVertices ''cylinder'') div 3 = 96
   \<and> length (getGeometryVertices ''plane'') div 3 = 6
   \<and> length (getGeometryVertices ''cube'') div 3 = 36"
proof -
  have n: "toLowerCase ''cube'' = ''cube''" "toLowerCase ''sphere'' = ''sphere''"
    "toLowerCase ''plane'' = ''plane''" "toLowerCase ''cylinder'' = ''cylinder''"
    "toLowerCase ''Torus'' = ''torus''"
    by code_simp+
  have c: "length (getGeometryVertices ''Torus'') div 3 = 1536"
    "length (getGeometryVertices ''sphere'') div 3 = 2280"
    "length (getGeometryVertices ''cylinder'') div 3 = 96"
    "length (getGeometryVertices ''plane'') div 3 = 6"
    "length (getGeometryVertices ''cube'') div 3 = 36"
    by (simp_all add: length_getGeometryVertices n)
  from geometry_buffers_are_triangle_lists [of "''Torus''"] c show ?thesis by blast
qed

text \<open>
  Claim C8. A name that, in lower case, is none of the five recognized names selects the
  default branch of both switches, whose arrays are the cube's; the generators have no
  failing branch.
\<close>

theorem unrecognized_geometry_is_cube:
  assumes "toLowerCase t \<notin> {''cube'', ''sphere'', ''plane'', ''cylinder'', ''torus''}"
  shows "getGeometryVertices t = getGeometryVertices ''cube''
    \<and> getGeometryNormals t = getGeometryNormals ''cube''
    \<and> getGeometryVertices t = map Some cube_vertices
    \<and> getGeometryNormals t = map Some cube_normals"
proof -
  have n: "toLowerCase ''cube'' = ''cube''" by code_simp
  from assms show ?thesis
    by (simp add: getGeometryVertices_def getGeometryNormals_def Let_def n
          default_arrays_are_cube)
qed

theorem unrecognized_geometry_is_cube_witness:
  "toLowerCase ''Pyramid'' \<notin> {''cube'', ''sphere'', ''plane'', ''cylinder'', ''torus''}
   \<and> getGeometryVertices ''Pyramid'' = getGeometryVertices ''cube''
   \<and> getGeometryNormals ''Pyramid'' = getGeometryNormals ''cube''"
proof -
  have "toLowerCase ''Pyramid'' = ''pyramid''" by code_simp
  then have h: "toLowerCase ''Pyramid'' \<notin> {''cube'', ''sphere'', ''plane'', ''cylinder'', ''torus''}"
    by simp
  from unrecognized_geometry_is_cube [OF h] h show ?thesis by blast
qed

section \<open>Results on the render pipeline\<close>

text \<open>
  Claim C1, as stated: a second \<open>renderShader\<close> call tears the first pipeline down before
  it creates a handle, so that at most one program and one frame callback are live. It does
  not: after two successful calls on the same view the shaders, the program and the buffers
  of the first call are live next to those of the second, and two frame callbacks are
  registered.
\<close>

theorem second_render_keeps_first_pipeline:
  "live_shaders (gl view_after_first) = [2, 1]
   \<and> live_programs (gl view_after_first) = [3]
   \<and> live_buffers (gl view_after_first) = [5, 4]
   \<and> pending_frames view_after_first = [1]
   \<and> live_shaders (gl view_after_second) = [7, 6, 2, 1]
   \<and> live_programs (gl view_after_second) = [8, 3]
   \<and> live_buffers (gl view_after_second) = [10, 9, 5, 4]
   \<and> pending_frames view_after_second = [1, 2]"
  by (simp add: view_after_first_eq view_after_second_eq)

text \<open>
  Claim C1, amended. Starting a render pipeline releases no device handle that was live
  before the call: the shaders, programs and buffers of a previous pipeline stay live, in
  their order, below the handles that the call creates. When the call activates a new
  pipeline, its program is a fresh handle put in front of the live programs, and the
  program reference of the view is switched to it.
\<close>

theorem render_releases_nothing:
  assumes "wf_gl (gl s)" and "renderShader h code s = (r, s')"
  shows "wf_gl (gl s')
    \<and> suffix (live_shaders (gl s)) (live_shaders (gl s'))
    \<and> suffix (live_programs (gl s)) (live_programs (gl s'))
    \<and> suffix (live_buffers (gl s)) (live_buffers (gl s'))
    \<and> (r = Inr () \<and> has_canvas h \<and> has_webgl h \<longrightarrow>
         programRef s' = Some (next_handle (gl s) + 2)
         \<and> next_handle (gl s) + 2 \<notin> set (live_programs (gl s))
         \<and> live_programs (gl s') = (next_handle (gl s) + 2) # live_programs (gl s))"
proof -
  have fresh: "next_handle (gl s) + 2 \<notin> set (live_programs (gl s))"
  proof
    assume "next_handle (gl s) + 2 \<in> set (live_programs (gl s))"
    then have "next_handle (gl s) + 2
        \<in> set (live_shaders (gl s) @ live_programs (gl s) @ live_buffers (gl s))" by simp
    with assms(1) have "next_handle (gl s) + 2 < next_handle (gl s)"
      unfolding wf_gl_def by blast
    then show False by simp
  qed
  have wf: "wf_gl ((gl s)\<lparr>next_handle := Suc (next_handle (gl s))\<rparr>)"
    by (rule wf_gl_grow [OF assms(1)]) auto
  have wf1: "wf_gl ((gl s)\<lparr>next_handle := Suc (Suc (next_handle (gl s))),
      live_shaders := next_handle (gl s) # live_shaders (gl s)\<rparr>)"
    by (rule wf_gl_grow [OF assms(1)]) auto
  have wf2: "wf_gl ((gl s)\<lparr>next_handle := Suc (Suc (next_handle (gl s))),
      live_shaders := Suc (next_handle (gl s)) # next_handle (gl s) # live_shaders (gl s)\<rparr>)"
    by (rule wf_gl_grow [OF assms(1)]) auto
  have wf2': "wf_gl ((gl s)\<lparr>next_handle := Suc (Suc (Suc (next_handle (gl s)))),
      live_shaders := Suc (next_handle (gl s)) # next_handle (gl s) # live_shaders (gl s)\<rparr>)"
    by (rule wf_gl_grow [OF assms(1)]) auto
  have wf3: "wf_gl ((gl s)\<lparr>live_shaders := Suc (next_handle (gl s)) # next_handle (gl s)
        # live_shaders (gl s),
      live_programs := Suc (Suc (next_handle (gl s))) # live_programs (gl s),
      next_handle := Suc (Suc (Suc (Suc (Suc (next_handle (gl s)))))),
      live_buffers := Suc (Suc (Suc (Suc (next_handle (gl s))))) # Suc (Suc (Suc (next_handle (gl s))))
        # live_buffers (gl s)\<rparr>)"
    by (rule wf_gl_grow [OF assms(1)]) auto
  have wf4: "wf_gl (gl (animate h' t)) \<longleftrightarrow> wf_gl (gl t)" for h' t
    by (simp add: wf_gl_def animate_handles)
  from assms(2) show ?thesis
    unfolding renderShader_result [OF assms(1)] Let_def
    using assms(1) fresh wf wf1 wf2 wf2' wf3
    by (auto simp: animate_handles wf4 suffix_ConsI split: if_splits sum.splits)
qed

theorem render_releases_nothing_witness:
  "wf_gl (gl view_after_first)
   \<and> renderShader host_ok bundle_ok view_after_first = (Inr (), view_after_second)
   \<and> suffix [2, 1] (live_shaders (gl view_after_second))
   \<and> suffix [3] (live_programs (gl view_after_second))
   \<and> suffix [5, 4] (live_buffers (gl view_after_second))
   \<and> programRef view_after_second = Some 8
   \<and> live_programs (gl view_after_second) = [8, 3]"
proof -
  have r: "renderShader host_ok bundle_ok view_after_first = (Inr (), view_after_second)"
    unfolding view_after_second_def renderShader_result [OF wf_view_after_first]
    by (simp add: split_bundle_ok host_ok_def Let_def)
  have h: "has_canvas host_ok \<and> has_webgl host_ok" by (simp add: host_ok_def)
  from render_releases_nothing [OF wf_view_after_first r] h wf_view_after_first r
  show ?thesis by (simp add: view_after_first_eq suffix_Cons)
qed

text \<open>
  Claim C2, as stated: when one stage compiles and the other fails, the handle of the stage
  that compiled is released, and when linking fails both shader handles are released. They
  are not: after a fragment-stage failure the vertex shader is still live, and after a link
  failure both shaders are.
\<close>

theorem failure_leaves_compiled_shaders:
  "fst (renderShader host_fragment_fails bundle_ok initial_view)
     = Inl (ShaderCompilationError ''ERROR'')
   \<and> live_shaders (gl (snd (renderShader host_fragment_fails bundle_ok initial_view))) = [1]
   \<and> fst (renderShader host_link_fails bundle_ok initial_view)
     = Inl (ProgramLinkingError ''ERROR'')
   \<and> live_shaders (gl (snd (renderShader host_link_fails bundle_ok initial_view))) = [2, 1]
   \<and> live_programs (gl (snd (renderShader host_link_fails bundle_ok initial_view))) = []"
  unfolding renderShader_result [OF wf_initial_view]
  by (simp add: split_bundle_ok host_fragment_fails_def host_link_fails_def host_ok_def
        initial_view_def Let_def)

text \<open>
  Claim C2, amended. On the failure path the object whose step failed is released before
  the error propagates: the shader that fails to compile and the program that fails to link
  are deleted, so that a failed call leaves no program and no buffer behind and the handle
  created last is not live. A parse failure creates no device object. The shaders that had
  compiled stay live: none after a vertex-stage failure, the vertex shader after a
  fragment-stage failure, both shaders after a link failure.
\<close>

theorem render_failure_releases_failed_object:
  assumes "wf_gl (gl s)" and "renderShader h code s = (Inl e, s')"
  shows "live_programs (gl s') = live_programs (gl s)
    \<and> live_buffers (gl s') = live_buffers (gl s)
    \<and> (is_missing_marker e \<longrightarrow> gl s' = gl s)
    \<and> ((\<exists>m. e = ShaderCompilationError m) \<longrightarrow>
          next_handle (gl s') - 1 \<notin> set (live_shaders (gl s'))
          \<and> (live_shaders (gl s') = live_shaders (gl s)
               \<or> live_shaders (gl s') = next_handle (gl s) # live_shaders (gl s))
          \<and> (\<exists>b. split_bundle code = Inr b
                \<and> (\<not> compiles h VERTEX_SHADER (vertexSrc b) \<longrightarrow>
                      live_shaders (gl s') = live_shaders (gl s)
                      \<and> next_handle (gl s') = Suc (next_handle (gl s)))
                \<and> (compiles h VERTEX_SHADER (vertexSrc b) \<longrightarrow>
                      \<not> compiles h FRAGMENT_SHADER (fixShaderIssues (fragmentSrc b))
                      \<and> live_shaders (gl s') = next_handle (gl s) # live_shaders (gl s)
                      \<and> next_handle (gl s) \<in> set (live_shaders (gl s'))
                      \<and> next_handle (gl s') = Suc (Suc (next_handle (gl s))))))
    \<and> ((\<exists>m. e = ProgramLinkingError m) \<longrightarrow>
          next_handle (gl s') - 1 \<notin> set (live_programs (gl s'))
          \<and> live_shaders (gl s')
              = Suc (next_handle (gl s)) # next_handle (gl s) # live_shaders (gl s)
          \<and> (\<exists>b. split_bundle code = Inr b
                \<and> compiles h VERTEX_SHADER (vertexSrc b)
                \<and> compiles h FRAGMENT_SHADER (fixShaderIssues (fragmentSrc b))
                \<and> \<not> links h (next_handle (gl s)) (Suc (next_handle (gl s)))))
    \<and> (\<forall>b. has_canvas h \<and> has_webgl h \<and> shader_alloc_ok h \<and> split_bundle code = Inr b
            \<and> compiles h VERTEX_SHADER (vertexSrc b)
            \<and> \<not> compiles h FRAGMENT_SHADER (fixShaderIssues (fragmentSrc b))
          \<longrightarrow> e = ShaderCompilationError (info_log h)
              \<and> live_shaders (gl s') = next_handle (gl s) # live_shaders (gl s))
    \<and> (\<forall>b. has_canvas h \<and> has_webgl h \<and> shader_alloc_ok h \<and> program_alloc_ok h
            \<and> split_bundle code = Inr b
            \<and> compiles h VERTEX_SHADER (vertexSrc b)
            \<and> compiles h FRAGMENT_SHADER (fixShaderIssues (fragmentSrc b))
            \<and> \<not> links h (next_handle (gl s)) (Suc (next_handle (gl s)))
          \<longrightarrow> e = ProgramLinkingError (info_log h)
              \<and> live_shaders (gl s')
                  = Suc (next_handle (gl s)) # next_handle (gl s) # live_shaders (gl s))"
proof -
  have fresh: "next_handle (gl s) + k \<notin> set (live_shaders (gl s))"
    "next_handle (gl s) + k \<notin> set (live_programs (gl s))" for k
  proof -
    have "\<not> next_handle (gl s) + k < next_handle (gl s)" by simp
    with assms(1) have "next_handle (gl s) + k
        \<notin> set (live_shaders (gl s) @ live_programs (gl s) @ live_buffers (gl s))"
      unfolding wf_gl_def by blast
    then show "next_handle (gl s) + k \<notin> set (live_shaders (gl s))"
      "next_handle (gl s) + k \<notin> set (live_programs (gl s))" by simp_all
  qed
  from assms(2) show ?thesis
    unfolding renderShader_result [OF assms(1)] Let_def
    using fresh [of 0] fresh [of 1] fresh [of 2]
    by (auto split: if_splits sum.splits dest: split_bundle_error)
qed

theorem render_failure_releases_failed_object_witness:
  "wf_gl (gl initial_view)
   \<and> (\<exists>s'. renderShader host_fragment_fails bundle_ok initial_view
          = (Inl (ShaderCompilationError ''ERROR''), s')
        \<and> live_programs (gl s') = [] \<and> live_buffers (gl s') = []
        \<and> live_shaders (gl s') = [1])
   \<and> (\<exists>s'. renderShader host_link_fails bundle_ok initial_view
          = (Inl (ProgramLinkingError ''ERROR''), s')
        \<and> live_programs (gl s') = [] \<and> live_buffers (gl s') = []
        \<and> live_shaders (gl s') = [2, 1])
   \<and> (\<exists>s'. renderShader host_ok bundle_no_fragment initial_view
          = (Inl MissingVertexOrFragmentMarker, s')
        \<and> gl s' = gl initial_view)"
proof -
  obtain s0 where r0: "renderShader host_fragment_fails bundle_ok initial_view
      = (Inl (ShaderCompilationError ''ERROR''), s0)"
    unfolding renderShader_result [OF wf_initial_view]
    by (simp add: split_bundle_ok host_fragment_fails_def host_ok_def Let_def)
  obtain s1 where r1: "renderShader host_link_fails bundle_ok initial_view
      = (Inl (ProgramLinkingError ''ERROR''), s1)"
    unfolding renderShader_result [OF wf_initial_view]
    by (simp add: split_bundle_ok host_link_fails_def host_ok_def Let_def)
  have sb: "split_bundle bundle_no_fragment = Inl MissingVertexOrFragmentMarker"
    by code_simp
  obtain s2 where r2: "renderShader host_ok bundle_no_fragment initial_view
      = (Inl MissingVertexOrFragmentMarker, s2)"
    unfolding renderShader_result [OF wf_initial_view]
    by (simp add: sb host_ok_def)
  from render_failure_releases_failed_object [OF wf_initial_view r0]
  have c0: "live_programs (gl s0) = [] \<and> live_buffers (gl s0) = []
      \<and> live_shaders (gl s0) = [1]"
    by (simp add: split_bundle_ok host_fragment_fails_def host_ok_def initial_view_def)
  from render_failure_releases_failed_object [OF wf_initial_view r1]
  have c1: "live_programs (gl s1) = [] \<and> live_buffers (gl s1) = []
      \<and> live_shaders (gl s1) = [2, 1]"
    by (simp add: initial_view_def)
  from render_failure_releases_failed_object [OF wf_initial_view r2]
  have c2: "gl s2 = gl initial_view" by simp
  from wf_initial_view r0 r1 r2 c0 c1 c2 show ?thesis by blast
qed

end
